theory Spec2Isabelle
  imports Main
begin

section \<open>Promises and resolve callbacks\<close>

text \<open>
  The primitives of \<^verbatim>\<open>src/lib/concurrency.ts\<close> run on a single thread. An \<^verbatim>\<open>async\<close>
  method returns a promise that is either already resolved when the method returns, or
  pending until somebody calls its \<^verbatim>\<open>resolve\<close> callback. The model keeps exactly this
  distinction. A wait queue stores the \<^verbatim>\<open>resolve\<close> callbacks of the pending promises; the
  type \<open>'w\<close> stands for such a callback (it identifies the suspended caller).
\<close>

datatype 'a promise = Resolved 'a | Pending

section \<open>Mutex\<close>

text \<open>
  \<^verbatim>\<open>
  export class Mutex {
    private locked: boolean = false;
    private waitQueue: Array<(value: boolean) => void> = [];
  \<close>
\<close>

record 'w mutex =
  locked :: bool
  waitQueue :: "'w list"

definition new_Mutex :: "'w mutex" where
  "new_Mutex = \<lparr>locked = False, waitQueue = []\<rparr>"

text \<open>
  \<^verbatim>\<open>
  async acquire(): Promise<void> {
    if (!this.locked) { this.locked = true; return Promise.resolve(); }
    return new Promise(resolve => { this.waitQueue.push(resolve); });
  }
  \<close>
  The argument \<open>resolve\<close> is the callback of the promise that the call creates when the
  lock is held.
\<close>

definition mutex_acquire ::
    "'w \<Rightarrow> ('w, 'x) mutex_scheme \<Rightarrow> unit promise \<times> ('w, 'x) mutex_scheme" where
  "mutex_acquire resolve m =
     (if \<not> locked m then (Resolved (), m\<lparr>locked := True\<rparr>)
      else (Pending, m\<lparr>mutex.waitQueue := mutex.waitQueue m @ [resolve]\<rparr>))"

text \<open>
  \<^verbatim>\<open>
  release(): void {
    if (this.waitQueue.length > 0) {
      const nextResolve = this.waitQueue.shift();
      if (nextResolve) { nextResolve(true); }
    } else {
      this.locked = false;
    }
  }
  \<close>
  The first component of the result is the callback that was invoked, if any: the
  suspended caller that this release resumes.
\<close>

definition mutex_release ::
    "('w, 'x) mutex_scheme \<Rightarrow> 'w option \<times> ('w, 'x) mutex_scheme" where
  "mutex_release m =
     (case mutex.waitQueue m of
        nextResolve # rest \<Rightarrow> (Some nextResolve, m\<lparr>mutex.waitQueue := rest\<rparr>)
      | [] \<Rightarrow> (None, m\<lparr>locked := False\<rparr>))"

definition isLocked :: "('w, 'x) mutex_scheme \<Rightarrow> bool" where
  "isLocked m = locked m"

subsection \<open>Sequences of calls on a mutex\<close>

text \<open>\<open>acquire_all\<close> issues one \<^verbatim>\<open>acquire()\<close> per callback, in list order, with no release
  in between, and collects the promises returned.\<close>

fun acquire_all :: "'w list \<Rightarrow> 'w mutex \<Rightarrow> unit promise list \<times> 'w mutex" where
  "acquire_all [] m = ([], m)"
| "acquire_all (w # ws) m =
     (case mutex_acquire w m of (p, m') \<Rightarrow>
        (case acquire_all ws m' of (ps, m'') \<Rightarrow> (p # ps, m'')))"

text \<open>\<open>release_n k\<close> calls \<^verbatim>\<open>release()\<close> \<open>k\<close> times and collects, per call, the waiter it
  resumed.\<close>

fun release_n :: "nat \<Rightarrow> 'w mutex \<Rightarrow> 'w option list \<times> 'w mutex" where
  "release_n 0 m = ([], m)"
| "release_n (Suc k) m =
     (case mutex_release m of (r, m') \<Rightarrow>
        (case release_n k m' of (rs, m'') \<Rightarrow> (r # rs, m'')))"

datatype 'w lock_op = Acquire 'w | Release

fun mutex_step :: "'w lock_op \<Rightarrow> 'w mutex \<Rightarrow> 'w mutex" where
  "mutex_step (Acquire w) m = snd (mutex_acquire w m)"
| "mutex_step Release m = snd (mutex_release m)"

fun mutex_run :: "'w lock_op list \<Rightarrow> 'w mutex \<Rightarrow> 'w mutex" where
  "mutex_run [] m = m"
| "mutex_run (ev # evs) m = mutex_run evs (mutex_step ev m)"

section \<open>Semaphore\<close>

text \<open>
  \<^verbatim>\<open>
  export class Semaphore {
    private permits: number;
    private waitQueue: Array<(value: boolean) => void> = [];
    constructor(permits: number) { this.permits = permits; }
  \<close>
  The counter is only ever compared with zero, incremented and decremented, so it is
  modelled as an integer. The class does not store the capacity it was constructed with.
\<close>

record 'w semaphore =
  permits :: int
  waitQueue :: "'w list"

definition new_Semaphore :: "int \<Rightarrow> 'w semaphore" where
  "new_Semaphore n = \<lparr>permits = n, waitQueue = []\<rparr>"

text \<open>
  \<^verbatim>\<open>
  async acquire(): Promise<void> {
    if (this.permits > 0) { this.permits--; return Promise.resolve(); }
    return new Promise(resolve => { this.waitQueue.push(resolve); });
  }
  \<close>
\<close>

definition semaphore_acquire :: "'w \<Rightarrow> 'w semaphore \<Rightarrow> unit promise \<times> 'w semaphore" where
  "semaphore_acquire resolve s =
     (if permits s > 0 then (Resolved (), s\<lparr>permits := permits s - 1\<rparr>)
      else (Pending, s\<lparr>semaphore.waitQueue := semaphore.waitQueue s @ [resolve]\<rparr>))"

text \<open>
  \<^verbatim>\<open>
  release(): void {
    if (this.waitQueue.length > 0) {
      const nextResolve = this.waitQueue.shift();
      if (nextResolve) { nextResolve(true); }
    } else {
      this.permits++;
    }
  }
  \<close>
\<close>

definition semaphore_release :: "'w semaphore \<Rightarrow> 'w option \<times> 'w semaphore" where
  "semaphore_release s =
     (case semaphore.waitQueue s of
        nextResolve # rest \<Rightarrow> (Some nextResolve, s\<lparr>semaphore.waitQueue := rest\<rparr>)
      | [] \<Rightarrow> (None, s\<lparr>permits := permits s + 1\<rparr>))"

definition availablePermits :: "'w semaphore \<Rightarrow> int" where
  "availablePermits s = permits s"

subsection \<open>Sequences of calls on a semaphore\<close>

fun semaphore_acquire_all ::
    "'w list \<Rightarrow> 'w semaphore \<Rightarrow> unit promise list \<times> 'w semaphore" where
  "semaphore_acquire_all [] s = ([], s)"
| "semaphore_acquire_all (w # ws) s =
     (case semaphore_acquire w s of (p, s') \<Rightarrow>
        (case semaphore_acquire_all ws s' of (ps, s'') \<Rightarrow> (p # ps, s'')))"

fun semaphore_release_n :: "nat \<Rightarrow> 'w semaphore \<Rightarrow> 'w option list \<times> 'w semaphore" where
  "semaphore_release_n 0 s = ([], s)"
| "semaphore_release_n (Suc k) s =
     (case semaphore_release s of (r, s') \<Rightarrow>
        (case semaphore_release_n k s' of (rs, s'') \<Rightarrow> (r # rs, s'')))"

fun semaphore_step :: "'w lock_op \<Rightarrow> 'w semaphore \<Rightarrow> 'w semaphore" where
  "semaphore_step (Acquire w) s = snd (semaphore_acquire w s)"
| "semaphore_step Release s = snd (semaphore_release s)"

fun semaphore_run :: "'w lock_op list \<Rightarrow> 'w semaphore \<Rightarrow> 'w semaphore" where
  "semaphore_run [] s = s"
| "semaphore_run (ev # evs) s = semaphore_run evs (semaphore_step ev s)"

text \<open>
  The number of holders is not a field of the class; it is a quantity of the run. An
  \<^verbatim>\<open>acquire()\<close> that resolves at once adds a holder; a \<^verbatim>\<open>release()\<close> that finds a waiter
  passes the permit on (one holder leaves, one is admitted); a \<^verbatim>\<open>release()\<close> that finds
  no waiter removes a holder. \<open>semaphore_held evs s h\<close> follows a run that starts in \<open>s\<close>
  with \<open>h\<close> holders and yields \<open>None\<close> as soon as \<^verbatim>\<open>release()\<close> is called while nobody
  holds a permit.
\<close>

fun semaphore_held :: "'w lock_op list \<Rightarrow> 'w semaphore \<Rightarrow> nat \<Rightarrow> nat option" where
  "semaphore_held [] s h = Some h"
| "semaphore_held (Acquire w # evs) s h =
     semaphore_held evs (semaphore_step (Acquire w) s) (if permits s > 0 then Suc h else h)"
| "semaphore_held (Release # evs) s h =
     (if h = 0 then None
      else semaphore_held evs (semaphore_step Release s)
             (if semaphore.waitQueue s = [] then h - 1 else h))"

section \<open>JavaScript values\<close>

text \<open>
  The registry of \<^verbatim>\<open>src/lib/data-change-mutex.ts\<close> instantiates \<^verbatim>\<open>DataChangeMutex<any>\<close>, so
  the guarded data is an arbitrary JavaScript value. The model covers \<^verbatim>\<open>null\<close>,
  \<^verbatim>\<open>undefined\<close>, booleans, numbers, strings, functions, arrays and plain objects. Numbers
  are the integers together with \<^verbatim>\<open>NaN\<close> and the two infinities; strings are ASCII.
  Functions, arrays and objects carry a reference (their identity), arrays and objects
  also their contents, an object as the list of its own enumerable properties in
  enumeration order. Values are finite trees: cyclic objects, on which
  \<^verbatim>\<open>JSON.stringify\<close> throws, are outside the model.
\<close>

datatype number = Finite int | NaN | PosInfinity | NegInfinity

datatype jsval =
    JNull
  | JUndefined
  | JBool bool
  | JNum number
  | JStr string
  | JFun nat
  | JArr nat "jsval list"
  | JObj nat "(string \<times> jsval) list"

text \<open>The operator \<^verbatim>\<open>typeof\<close>.\<close>

fun typeof :: "jsval \<Rightarrow> string" where
  "typeof JNull = ''object''"
| "typeof JUndefined = ''undefined''"
| "typeof (JBool b) = ''boolean''"
| "typeof (JNum n) = ''number''"
| "typeof (JStr s) = ''string''"
| "typeof (JFun r) = ''function''"
| "typeof (JArr r xs) = ''object''"
| "typeof (JObj r ps) = ''object''"

text \<open>The operator \<^verbatim>\<open>===\<close>: values of different types are never equal, \<^verbatim>\<open>NaN\<close> is not
  equal to itself, functions, arrays and objects are compared by reference.\<close>

fun strict_equals :: "jsval \<Rightarrow> jsval \<Rightarrow> bool" where
  "strict_equals JNull JNull = True"
| "strict_equals JUndefined JUndefined = True"
| "strict_equals (JBool a) (JBool b) = (a = b)"
| "strict_equals (JNum a) (JNum b) = (a \<noteq> NaN \<and> b \<noteq> NaN \<and> a = b)"
| "strict_equals (JStr a) (JStr b) = (a = b)"
| "strict_equals (JFun r) (JFun r') = (r = r')"
| "strict_equals (JArr r xs) (JArr r' ys) = (r = r')"
| "strict_equals (JObj r ps) (JObj r' qs) = (r = r')"
| "strict_equals a b = False"

subsection \<open>\<^verbatim>\<open>JSON.stringify\<close>\<close>

fun decimal :: "nat \<Rightarrow> string" where
  "decimal n =
     (if n < 10 then [char_of (48 + n)]
      else decimal (n div 10) @ [char_of (48 + n mod 10)])"

declare decimal.simps [simp del]

definition number_toString :: "int \<Rightarrow> string" where
  "number_toString i = (if i < 0 then ''-'' @ decimal (nat (- i)) else decimal (nat i))"

definition hex_digit :: "nat \<Rightarrow> char" where
  "hex_digit n = (if n < 10 then char_of (48 + n) else char_of (87 + n))"

text \<open>Escaping inside a JSON string: the double quote (0x22), the backslash (0x5C) and
  the control characters.\<close>

definition escape_char :: "char \<Rightarrow> string" where
  "escape_char c =
     (if c = CHR 0x22 then [CHR 0x5C, CHR 0x22]
      else if c = CHR 0x5C then [CHR 0x5C, CHR 0x5C]
      else if c = CHR 0x08 then [CHR 0x5C, CHR ''b'']
      else if c = CHR 0x0C then [CHR 0x5C, CHR ''f'']
      else if c = CHR 0x0A then [CHR 0x5C, CHR ''n'']
      else if c = CHR 0x0D then [CHR 0x5C, CHR ''r'']
      else if c = CHR 0x09 then [CHR 0x5C, CHR ''t'']
      else if (of_char c :: nat) < 32 then
        [CHR 0x5C, CHR ''u'', CHR ''0'', CHR ''0'',
         hex_digit (of_char c div 16), hex_digit (of_char c mod 16)]
      else [c])"

definition quote :: "string \<Rightarrow> string" where
  "quote s = [CHR 0x22] @ concat (map escape_char s) @ [CHR 0x22]"

fun join :: "string \<Rightarrow> string list \<Rightarrow> string" where
  "join sep [] = []"
| "join sep [x] = x"
| "join sep (x # y # ys) = x @ sep @ join sep (y # ys)"

text \<open>
  \<^verbatim>\<open>JSON.stringify(v)\<close> with one argument. The result \<open>None\<close> is \<^verbatim>\<open>undefined\<close>, which the
  built-in returns for \<^verbatim>\<open>undefined\<close> and for functions. Inside an array such an element
  is written \<^verbatim>\<open>null\<close>; inside an object the property is left out. Numbers that are not
  finite are written \<^verbatim>\<open>null\<close>.
\<close>

fun JSON_stringify :: "jsval \<Rightarrow> string option"
and stringify_elements :: "jsval list \<Rightarrow> string list"
and stringify_properties :: "(string \<times> jsval) list \<Rightarrow> string list" where
  "JSON_stringify JNull = Some ''null''"
| "JSON_stringify JUndefined = None"
| "JSON_stringify (JBool b) = Some (if b then ''true'' else ''false'')"
| "JSON_stringify (JNum n) =
     Some (case n of Finite i \<Rightarrow> number_toString i | _ \<Rightarrow> ''null'')"
| "JSON_stringify (JStr s) = Some (quote s)"
| "JSON_stringify (JFun r) = None"
| "JSON_stringify (JArr r xs) = Some (''['' @ join '','' (stringify_elements xs) @ '']'')"
| "JSON_stringify (JObj r ps) = Some (''{'' @ join '','' (stringify_properties ps) @ ''}'')"
| "stringify_elements [] = []"
| "stringify_elements (x # xs) =
     (case JSON_stringify x of None \<Rightarrow> ''null'' | Some t \<Rightarrow> t) # stringify_elements xs"
| "stringify_properties [] = []"
| "stringify_properties ((k, v) # ps) =
     (case JSON_stringify v of
        None \<Rightarrow> stringify_properties ps
      | Some t \<Rightarrow> (quote k @ '':'' @ t) # stringify_properties ps)"

section \<open>DataChangeMutex\<close>

text \<open>
  \<^verbatim>\<open>
  function defaultCompare<T>(a: T | null, b: T): boolean {
    if (a === null) return false;
    if (typeof a !== typeof b) return false;
    if (typeof a === 'object' && a !== null) {
      return JSON.stringify(a) === JSON.stringify(b);
    }
    return a === b;
  }
  \<close>
\<close>

definition defaultCompare :: "jsval \<Rightarrow> jsval \<Rightarrow> bool" where
  "defaultCompare a b =
     (if a = JNull then False
      else if typeof a \<noteq> typeof b then False
      else if typeof a = ''object'' \<and> a \<noteq> JNull then JSON_stringify a = JSON_stringify b
      else strict_equals a b)"

text \<open>
  \<^verbatim>\<open>
  export class DataChangeMutex<T> extends Mutex {
    private lastData: T | null = null;
  \<close>
\<close>

record 'w dataChangeMutex = "'w mutex" +
  lastData :: jsval

definition new_DataChangeMutex :: "'w dataChangeMutex" where
  "new_DataChangeMutex = \<lparr>locked = False, waitQueue = [], lastData = JNull\<rparr>"

text \<open>
  \<^verbatim>\<open>
  async acquireIfChanged(newData: T, compareFunction = defaultCompare): Promise<boolean> {
    if (this.lastData === null) {
      await this.acquire();
      this.lastData = newData;
      return true;
    }
    const hasChanged = !compareFunction(this.lastData, newData);
    if (hasChanged) {
      await this.acquire();
      this.lastData = newData;
      return true;
    }
    return false;
  }
  \<close>
  The method is split where it can suspend. \<open>acquireIfChanged_begin\<close> is the part that
  runs when the method is called: it either returns \<^verbatim>\<open>false\<close> or reaches
  \<^verbatim>\<open>await this.acquire()\<close>, having called \<^verbatim>\<open>acquire()\<close>. \<open>acquireIfChanged_resume\<close> is the part
  after the \<^verbatim>\<open>await\<close>, which runs once the promise of \<^verbatim>\<open>acquire()\<close> is resolved.
\<close>

datatype 'a suspension = Returned 'a | Awaiting "unit promise"

definition acquireIfChanged_begin ::
    "'w \<Rightarrow> jsval \<Rightarrow> (jsval \<Rightarrow> jsval \<Rightarrow> bool) \<Rightarrow> 'w dataChangeMutex \<Rightarrow>
     bool suspension \<times> 'w dataChangeMutex" where
  "acquireIfChanged_begin resolve newData compareFunction d =
     (if lastData d = JNull then
        (case mutex_acquire resolve d of (p, d') \<Rightarrow> (Awaiting p, d'))
      else
        (let hasChanged = \<not> compareFunction (lastData d) newData in
         if hasChanged then
           (case mutex_acquire resolve d of (p, d') \<Rightarrow> (Awaiting p, d'))
         else (Returned False, d)))"

definition acquireIfChanged_resume ::
    "jsval \<Rightarrow> 'w dataChangeMutex \<Rightarrow> bool \<times> 'w dataChangeMutex" where
  "acquireIfChanged_resume newData d = (True, d\<lparr>lastData := newData\<rparr>)"

text \<open>The whole call as its caller sees it when nothing else runs in between: the promise
  it returns is resolved with the boolean, or pending while the caller is queued.\<close>

definition acquireIfChanged ::
    "'w \<Rightarrow> jsval \<Rightarrow> (jsval \<Rightarrow> jsval \<Rightarrow> bool) \<Rightarrow> 'w dataChangeMutex \<Rightarrow>
     bool promise \<times> 'w dataChangeMutex" where
  "acquireIfChanged resolve newData compareFunction d =
     (case acquireIfChanged_begin resolve newData compareFunction d of
        (Returned b, d') \<Rightarrow> (Resolved b, d')
      | (Awaiting (Resolved u), d') \<Rightarrow>
          (case acquireIfChanged_resume newData d' of (b, d'') \<Rightarrow> (Resolved b, d''))
      | (Awaiting Pending, d') \<Rightarrow> (Pending, d'))"

text \<open>
  \<^verbatim>\<open>
  releaseWithData(clearData: boolean = false): void {
    if (clearData) { this.lastData = null; }
    this.release();
  }
  getLastData(): T | null { return this.lastData; }
  \<close>
\<close>

definition releaseWithData ::
    "bool \<Rightarrow> 'w dataChangeMutex \<Rightarrow> 'w option \<times> 'w dataChangeMutex" where
  "releaseWithData clearData d =
     mutex_release (if clearData then d\<lparr>lastData := JNull\<rparr> else d)"

definition getLastData :: "'w dataChangeMutex \<Rightarrow> jsval" where
  "getLastData d = lastData d"

subsection \<open>Sequences of calls on a DataChangeMutex\<close>

text \<open>
  A wait queue entry stands for the suspended caller that it resumes: a caller of the
  inherited \<^verbatim>\<open>acquire()\<close>, or an \<^verbatim>\<open>acquireIfChanged(newData)\<close> call that waits at its
  \<^verbatim>\<open>await\<close>. The field \<open>resolved\<close> holds the callers whose promise is resolved and whose
  continuation has not run yet. A continuation may run at any later point, so every
  interleaving of calls and continuations is a sequence of the events below.
\<close>

datatype caller = AcquireCaller | IfChangedCaller jsval

record dcm_system =
  object :: "caller dataChangeMutex"
  resolved :: "caller list"

definition new_dcm_system :: dcm_system where
  "new_dcm_system = \<lparr>object = new_DataChangeMutex, resolved = []\<rparr>"

datatype dcm_event =
    CallAcquire
  | CallAcquireIfChanged jsval "jsval \<Rightarrow> jsval \<Rightarrow> bool"
  | CallRelease
  | CallReleaseWithData bool
  | RunContinuation nat

text \<open>What an observer of the calls sees: an \<^verbatim>\<open>acquireIfChanged(newData)\<close> call returned
  \<^verbatim>\<open>true\<close>, one returned \<^verbatim>\<open>false\<close>, or \<^verbatim>\<open>releaseWithData(true)\<close> was called.\<close>

datatype observation = Granted jsval | Declined | Cleared

definition resume_of :: "caller option \<Rightarrow> caller list" where
  "resume_of r = (case r of None \<Rightarrow> [] | Some w \<Rightarrow> [w])"

fun dcm_step :: "dcm_event \<Rightarrow> dcm_system \<Rightarrow> observation list \<times> dcm_system" where
  "dcm_step CallAcquire s =
     (case mutex_acquire AcquireCaller (object s) of
        (Resolved u, d) \<Rightarrow> ([], s\<lparr>object := d, resolved := resolved s @ [AcquireCaller]\<rparr>)
      | (Pending, d) \<Rightarrow> ([], s\<lparr>object := d\<rparr>))"
| "dcm_step (CallAcquireIfChanged newData compareFunction) s =
     (case acquireIfChanged_begin (IfChangedCaller newData) newData compareFunction (object s) of
        (Returned b, d) \<Rightarrow> ([if b then Granted newData else Declined], s\<lparr>object := d\<rparr>)
      | (Awaiting (Resolved u), d) \<Rightarrow>
          ([], s\<lparr>object := d, resolved := resolved s @ [IfChangedCaller newData]\<rparr>)
      | (Awaiting Pending, d) \<Rightarrow> ([], s\<lparr>object := d\<rparr>))"
| "dcm_step CallRelease s =
     (case mutex_release (object s) of
        (r, d) \<Rightarrow> ([], s\<lparr>object := d, resolved := resolved s @ resume_of r\<rparr>))"
| "dcm_step (CallReleaseWithData clearData) s =
     (case releaseWithData clearData (object s) of
        (r, d) \<Rightarrow> (if clearData then [Cleared] else [],
                   s\<lparr>object := d, resolved := resolved s @ resume_of r\<rparr>))"
| "dcm_step (RunContinuation i) s =
     (if i < length (resolved s) then
        (case resolved s ! i of
           AcquireCaller \<Rightarrow>
             ([], s\<lparr>resolved := take i (resolved s) @ drop (Suc i) (resolved s)\<rparr>)
         | IfChangedCaller newData \<Rightarrow>
             (case acquireIfChanged_resume newData (object s) of
                (b, d) \<Rightarrow>
                  ([if b then Granted newData else Declined],
                   s\<lparr>object := d,
                     resolved := take i (resolved s) @ drop (Suc i) (resolved s)\<rparr>)))
      else ([], s))"

fun dcm_run :: "dcm_event list \<Rightarrow> dcm_system \<Rightarrow> observation list \<times> dcm_system" where
  "dcm_run [] s = ([], s)"
| "dcm_run (ev # evs) s =
     (case dcm_step ev s of (os, s') \<Rightarrow>
        (case dcm_run evs s' of (os', s'') \<Rightarrow> (os @ os', s'')))"

text \<open>
  The value that the specification associates with a history: the \<open>newData\<close> of the most
  recent successful acquisition, provided no clear came after it.
\<close>

fun last_grant_from :: "jsval option \<Rightarrow> observation list \<Rightarrow> jsval option" where
  "last_grant_from g [] = g"
| "last_grant_from g (Granted x # os) = last_grant_from (Some x) os"
| "last_grant_from g (Declined # os) = last_grant_from g os"
| "last_grant_from g (Cleared # os) = last_grant_from None os"

definition last_grant :: "observation list \<Rightarrow> jsval option" where
  "last_grant os = last_grant_from None os"

definition baseline_value :: "jsval option \<Rightarrow> jsval" where
  "baseline_value g = (case g of None \<Rightarrow> JNull | Some x \<Rightarrow> x)"

section \<open>Registries and scoped acquisition\<close>

text \<open>
  \<^verbatim>\<open>
  export const mutexes = { workspace: new Mutex(), messages: new Mutex(), ... };
  export const semaphores = {
    api: new Semaphore(10), db: new Semaphore(5), sms: new Semaphore(3) };
  \<close>
\<close>

datatype mutexKey = workspace | messages | analytics | templates | contacts | properties

datatype semaphoreKey = api | db | sms

record 'w registry =
  mutexes :: "mutexKey \<Rightarrow> 'w mutex"
  semaphores :: "semaphoreKey \<Rightarrow> 'w semaphore"

definition initial_registry :: "'w registry" where
  "initial_registry =
     \<lparr>mutexes = (\<lambda>k. new_Mutex),
      semaphores = (\<lambda>k. case k of api \<Rightarrow> new_Semaphore 10
                                  | db \<Rightarrow> new_Semaphore 5
                                  | sms \<Rightarrow> new_Semaphore 3)\<rparr>"

text \<open>
  \<^verbatim>\<open>
  export async function withMutex<T>(mutexKey, fn: () => Promise<T>): Promise<T> {
    const mutex = mutexes[mutexKey];
    await mutex.acquire();
    try { return await fn(); } finally { mutex.release(); }
  }
  \<close>
  The callback \<open>fn\<close> is any computation on the registries that ends with a value
  (\<open>Inr\<close>) or with a thrown error (\<open>Inl\<close>); the state it returns is the state at the
  moment it settles, whatever ran while it was suspended. \<open>withMutex_resume\<close> is the
  \<^verbatim>\<open>try\<close>/\<^verbatim>\<open>finally\<close> block, which runs once the lock has been granted: at once if the lock
  was free, after a hand-over otherwise. The result of a helper is the promise it
  returns, resolved with \<open>Inr\<close> a value (fulfilled) or \<open>Inl\<close> an error (rejected).
\<close>

definition withMutex_resume ::
    "mutexKey \<Rightarrow> ('w registry \<Rightarrow> ('e + 'a) \<times> 'w registry) \<Rightarrow> 'w registry \<Rightarrow>
     ('e + 'a) \<times> 'w registry" where
  "withMutex_resume mutexKey fn g =
     (case fn g of (r, g') \<Rightarrow>
        (r, g'\<lparr>mutexes := (mutexes g')(mutexKey := snd (mutex_release (mutexes g' mutexKey)))\<rparr>))"

definition withMutex ::
    "'w \<Rightarrow> mutexKey \<Rightarrow> ('w registry \<Rightarrow> ('e + 'a) \<times> 'w registry) \<Rightarrow> 'w registry \<Rightarrow>
     ('e + 'a) promise \<times> 'w registry" where
  "withMutex resolve mutexKey fn g =
     (case mutex_acquire resolve (mutexes g mutexKey) of
        (Resolved u, m) \<Rightarrow>
          (case withMutex_resume mutexKey fn (g\<lparr>mutexes := (mutexes g)(mutexKey := m)\<rparr>) of
             (r, g') \<Rightarrow> (Resolved r, g'))
      | (Pending, m) \<Rightarrow> (Pending, g\<lparr>mutexes := (mutexes g)(mutexKey := m)\<rparr>))"

text \<open>
  \<^verbatim>\<open>
  export async function withSemaphore<T>(semaphoreKey, fn: () => Promise<T>): Promise<T> {
    const semaphore = semaphores[semaphoreKey];
    await semaphore.acquire();
    try { return await fn(); } finally { semaphore.release(); }
  }
  \<close>
\<close>

definition withSemaphore_resume ::
    "semaphoreKey \<Rightarrow> ('w registry \<Rightarrow> ('e + 'a) \<times> 'w registry) \<Rightarrow> 'w registry \<Rightarrow>
     ('e + 'a) \<times> 'w registry" where
  "withSemaphore_resume semaphoreKey fn g =
     (case fn g of (r, g') \<Rightarrow>
        (r, g'\<lparr>semaphores :=
                 (semaphores g')(semaphoreKey :=
                    snd (semaphore_release (semaphores g' semaphoreKey)))\<rparr>))"

definition withSemaphore ::
    "'w \<Rightarrow> semaphoreKey \<Rightarrow> ('w registry \<Rightarrow> ('e + 'a) \<times> 'w registry) \<Rightarrow> 'w registry \<Rightarrow>
     ('e + 'a) promise \<times> 'w registry" where
  "withSemaphore resolve semaphoreKey fn g =
     (case semaphore_acquire resolve (semaphores g semaphoreKey) of
        (Resolved u, sem) \<Rightarrow>
          (case withSemaphore_resume semaphoreKey fn
                  (g\<lparr>semaphores := (semaphores g)(semaphoreKey := sem)\<rparr>) of
             (r, g') \<Rightarrow> (Resolved r, g'))
      | (Pending, sem) \<Rightarrow> (Pending, g\<lparr>semaphores := (semaphores g)(semaphoreKey := sem)\<rparr>))"

section \<open>Properties of Mutex\<close>

lemma acquire_all_locked:
  "acquire_all ws \<lparr>locked = True, waitQueue = q\<rparr> =
     (replicate (length ws) Pending, \<lparr>locked = True, waitQueue = q @ ws\<rparr>)"
  by (induction ws arbitrary: q) (simp_all add: mutex_acquire_def)

lemma release_n_queue:
  "k \<le> length q \<Longrightarrow>
   release_n k \<lparr>locked = b, waitQueue = q\<rparr> =
     (map Some (take k q), \<lparr>locked = b, waitQueue = drop k q\<rparr>)"
proof (induction k arbitrary: q)
  case 0
  show ?case by simp
next
  case (Suc k)
  then obtain w ws where q: "q = w # ws" by (cases q) auto
  with Suc.prems have "k \<le> length ws" by simp
  from Suc.IH [OF this] show ?case by (simp add: q mutex_release_def)
qed

lemma mutex_step_queue_locked:
  "(mutex.waitQueue m \<noteq> [] \<longrightarrow> locked m) \<Longrightarrow>
   mutex.waitQueue (mutex_step ev m) \<noteq> [] \<longrightarrow> locked (mutex_step ev m)"
  by (cases ev) (auto simp: mutex_acquire_def mutex_release_def split: list.splits)

lemma mutex_run_queue_locked:
  "(mutex.waitQueue m \<noteq> [] \<longrightarrow> locked m) \<Longrightarrow>
   mutex.waitQueue (mutex_run evs m) \<noteq> [] \<longrightarrow> locked (mutex_run evs m)"
proof (induction evs arbitrary: m)
  case Nil
  then show ?case by simp
next
  case (Cons ev evs)
  from Cons.IH [OF mutex_step_queue_locked [OF Cons.prems]] show ?case by simp
qed

text \<open>
  Claim C1. On a fresh mutex, \<open>N \<ge> 1\<close> calls of \<^verbatim>\<open>acquire()\<close> with no release in between:
  the first returns a resolved promise and marks the lock held, each of the other
  \<open>N - 1\<close> returns a pending promise, and the pending callers sit in the wait queue in
  the order of their calls. Each of the next \<open>k \<le> N - 1\<close> calls of \<^verbatim>\<open>release()\<close> resumes
  exactly one of them, the \<open>i\<close>-th release the \<open>i\<close>-th waiter, and the lock stays held.
\<close>

theorem mutex_acquire_fifo:
  "acquire_all (w # ws) new_Mutex =
     (Resolved () # replicate (length ws) Pending, \<lparr>locked = True, waitQueue = ws\<rparr>)
   \<and> (\<forall>k \<le> length ws.
        release_n k (snd (acquire_all (w # ws) new_Mutex)) =
          (map Some (take k ws), \<lparr>locked = True, waitQueue = drop k ws\<rparr>))"
proof -
  have a: "acquire_all (w # ws) new_Mutex =
     (Resolved () # replicate (length ws) Pending, \<lparr>locked = True, waitQueue = ws\<rparr>)"
    using acquire_all_locked [of ws "[]"] by (simp add: new_Mutex_def mutex_acquire_def)
  show ?thesis
    unfolding a by (simp add: release_n_queue)
qed

theorem mutex_acquire_fifo_witness:
  "acquire_all [10, 11, 12 :: nat] new_Mutex =
     ([Resolved (), Pending, Pending], \<lparr>locked = True, waitQueue = [11, 12]\<rparr>)
   \<and> release_n 2 (snd (acquire_all [10, 11, 12 :: nat] new_Mutex)) =
       ([Some 11, Some 12], \<lparr>locked = True, waitQueue = []\<rparr>)"
proof -
  have k: "(2::nat) \<le> length [11, 12 :: nat]" by simp
  from mutex_acquire_fifo [of "10::nat" "[11, 12]"] have
    "acquire_all [10, 11, 12 :: nat] new_Mutex =
       (Resolved () # replicate (length [11, 12 :: nat]) Pending,
        \<lparr>locked = True, waitQueue = [11, 12]\<rparr>)"
    and r: "\<forall>k \<le> length [11, 12 :: nat].
        release_n k (snd (acquire_all [10, 11, 12 :: nat] new_Mutex)) =
          (map Some (take k [11, 12]), \<lparr>locked = True, waitQueue = drop k [11, 12]\<rparr>)"
    by blast+
  moreover from r k have
    "release_n 2 (snd (acquire_all [10, 11, 12 :: nat] new_Mutex)) =
       (map Some (take 2 [11, 12]), \<lparr>locked = True, waitQueue = drop 2 [11, 12 :: nat]\<rparr>)"
    by blast
  ultimately show ?thesis by simp
qed

text \<open>
  Claim C2. In every state that a fresh mutex reaches by calls of \<^verbatim>\<open>acquire()\<close> and
  \<^verbatim>\<open>release()\<close>: if the wait queue is not empty, \<^verbatim>\<open>release()\<close> removes the earliest waiter
  and resumes it, changes nothing else, and the lock is held before and after the call;
  if the wait queue is empty, \<^verbatim>\<open>release()\<close> resumes nobody and sets \<open>locked\<close> to false.
\<close>

theorem mutex_release_handoff:
  assumes "m = mutex_run evs new_Mutex"
  shows "(mutex.waitQueue m \<noteq> [] \<longrightarrow>
            mutex_release m =
              (Some (hd (mutex.waitQueue m)), m\<lparr>mutex.waitQueue := tl (mutex.waitQueue m)\<rparr>)
            \<and> isLocked m \<and> isLocked (snd (mutex_release m)))
       \<and> (mutex.waitQueue m = [] \<longrightarrow>
            mutex_release m = (None, m\<lparr>locked := False\<rparr>)
            \<and> \<not> isLocked (snd (mutex_release m)))"
proof -
  have "mutex.waitQueue (mutex_run evs new_Mutex) \<noteq> [] \<longrightarrow> locked (mutex_run evs new_Mutex)"
    by (rule mutex_run_queue_locked) (simp add: new_Mutex_def)
  with assms have inv: "mutex.waitQueue m \<noteq> [] \<longrightarrow> locked m" by simp
  then show ?thesis
    by (cases "mutex.waitQueue m") (simp_all add: mutex_release_def isLocked_def)
qed

theorem mutex_release_handoff_witness:
  "mutex_release (mutex_run [Acquire (1::nat), Acquire 2, Acquire 3] new_Mutex) =
     (Some 2, \<lparr>locked = True, waitQueue = [3]\<rparr>)
   \<and> mutex_release (mutex_run [Acquire (1::nat)] new_Mutex) =
     (None, \<lparr>locked = False, waitQueue = []\<rparr>)"
proof -
  have s1: "mutex_run [Acquire (1::nat), Acquire 2, Acquire 3] new_Mutex =
      \<lparr>locked = True, waitQueue = [2, 3]\<rparr>"
    by (simp add: new_Mutex_def mutex_acquire_def)
  have s2: "mutex_run [Acquire (1::nat)] new_Mutex = \<lparr>locked = True, waitQueue = []\<rparr>"
    by (simp add: new_Mutex_def mutex_acquire_def)
  have "mutex_release \<lparr>locked = True, waitQueue = [2, 3 :: nat]\<rparr> =
      (Some 2, \<lparr>locked = True, waitQueue = [3]\<rparr>)"
    using mutex_release_handoff [OF s1 [symmetric]] by simp
  moreover have "mutex_release \<lparr>locked = True, waitQueue = [] :: nat list\<rparr> =
      (None, \<lparr>locked = False, waitQueue = []\<rparr>)"
    using mutex_release_handoff [OF s2 [symmetric]] by simp
  ultimately show ?thesis unfolding s1 s2 by simp
qed

section \<open>Properties of Semaphore\<close>

lemma semaphore_acquire_all_exhausted:
  "semaphore_acquire_all ws \<lparr>permits = 0, waitQueue = q\<rparr> =
     (replicate (length ws) Pending, \<lparr>permits = 0, waitQueue = q @ ws\<rparr>)"
  by (induction ws arbitrary: q) (simp_all add: semaphore_acquire_def)

lemma semaphore_acquire_all_fresh:
  "semaphore_acquire_all ws \<lparr>permits = int c, waitQueue = []\<rparr> =
     (replicate (min c (length ws)) (Resolved ()) @ replicate (length ws - c) Pending,
      \<lparr>permits = int (c - length ws), waitQueue = drop c ws\<rparr>)"
proof (induction ws arbitrary: c)
  case Nil
  show ?case by simp
next
  case (Cons w ws)
  show ?case
  proof (cases c)
    case 0
    then show ?thesis
      using semaphore_acquire_all_exhausted [of "w # ws" "[]"] by simp
  next
    case (Suc c')
    have "int (Suc c') - 1 = int c'" by simp
    then show ?thesis
      using Cons.IH [of c'] by (simp add: Suc semaphore_acquire_def)
  qed
qed

lemma semaphore_release_n_queue:
  "k \<le> length q \<Longrightarrow>
   semaphore_release_n k \<lparr>permits = p, waitQueue = q\<rparr> =
     (map Some (take k q), \<lparr>permits = p, waitQueue = drop k q\<rparr>)"
proof (induction k arbitrary: q)
  case 0
  show ?case by simp
next
  case (Suc k)
  then obtain w ws where q: "q = w # ws" by (cases q) auto
  with Suc.prems have "k \<le> length ws" by simp
  from Suc.IH [OF this] show ?case by (simp add: q semaphore_release_def)
qed

text \<open>
  Claim C4. A semaphore constructed with capacity \<open>C\<close> receives one \<^verbatim>\<open>acquire()\<close> per
  element of \<open>ws\<close>, with no release in between. The first \<open>C\<close> calls return resolved
  promises and each takes one permit; every later call returns a pending promise and is
  queued in call order. If more than \<open>C\<close> calls were made, call number \<open>C + 1\<close> is
  pending and \<^verbatim>\<open>availablePermits()\<close> reads 0. After that, each of the next \<open>k\<close> calls of
  \<^verbatim>\<open>release()\<close> (\<open>k\<close> at most the number of waiters) admits exactly one waiter, in the
  order of the original requests, and the permit count does not change (it is 0 whenever
  somebody is queued). The statement holds for every \<open>C\<close>, in particular for \<open>C \<ge> 1\<close>.
\<close>

theorem semaphore_capacity_fifo:
  fixes C :: nat and ws :: "'w list"
  defines "run \<equiv> semaphore_acquire_all ws (new_Semaphore (int C))"
  shows "run = (replicate (min C (length ws)) (Resolved ()) @ replicate (length ws - C) Pending,
                \<lparr>permits = int (C - length ws), waitQueue = drop C ws\<rparr>)
       \<and> (C < length ws \<longrightarrow> fst run ! C = Pending \<and> availablePermits (snd run) = 0)
       \<and> (\<forall>k \<le> length ws - C.
            semaphore_release_n k (snd run) =
              (map Some (take k (drop C ws)),
               \<lparr>permits = int (C - length ws), waitQueue = drop (C + k) ws\<rparr>))"
proof -
  have r: "run = (replicate (min C (length ws)) (Resolved ()) @ replicate (length ws - C) Pending,
                \<lparr>permits = int (C - length ws), waitQueue = drop C ws\<rparr>)"
    unfolding run_def new_Semaphore_def by (rule semaphore_acquire_all_fresh)
  have p: "C < length ws \<longrightarrow> fst run ! C = Pending \<and> availablePermits (snd run) = 0"
    unfolding r by (simp add: availablePermits_def nth_append min_def)
  have q: "semaphore_release_n k (snd run) =
      (map Some (take k (drop C ws)),
       \<lparr>permits = int (C - length ws), waitQueue = drop (C + k) ws\<rparr>)"
    if "k \<le> length ws - C" for k
  proof (cases "C < length ws")
    case True
    with that show ?thesis
      unfolding r by (simp add: semaphore_release_n_queue add.commute)
  next
    case False
    with that have "k = 0" by simp
    with False show ?thesis unfolding r by simp
  qed
  from r p q show ?thesis by blast
qed

theorem semaphore_capacity_fifo_witness:
  "semaphore_acquire_all [1, 2, 3, 4, 5 :: nat] (new_Semaphore 3) =
     ([Resolved (), Resolved (), Resolved (), Pending, Pending],
      \<lparr>permits = 0, waitQueue = [4, 5]\<rparr>)
   \<and> semaphore_release_n 2 (snd (semaphore_acquire_all [1, 2, 3, 4, 5 :: nat] (new_Semaphore 3))) =
       ([Some 4, Some 5], \<lparr>permits = 0, waitQueue = []\<rparr>)"
proof -
  note t = semaphore_capacity_fifo [of "[1, 2, 3, 4, 5 :: nat]" 3]
  have a: "semaphore_acquire_all [1, 2, 3, 4, 5 :: nat] (new_Semaphore 3) =
     ([Resolved (), Resolved (), Resolved (), Pending, Pending],
      \<lparr>permits = 0, waitQueue = [4, 5]\<rparr>)"
    using t by (simp add: numeral_eq_Suc)
  have "(2::nat) \<le> length [1, 2, 3, 4, 5 :: nat] - 3" by simp
  with t have "semaphore_release_n 2 (snd (semaphore_acquire_all [1, 2, 3, 4, 5 :: nat] (new_Semaphore (int 3)))) =
      (map Some (take 2 (drop 3 [1, 2, 3, 4, 5 :: nat])),
       \<lparr>permits = int (3 - length [1, 2, 3, 4, 5 :: nat]),
        waitQueue = drop (3 + 2) [1, 2, 3, 4, 5 :: nat]\<rparr>)"
    by blast
  then have b: "semaphore_release_n 2 (snd (semaphore_acquire_all [1, 2, 3, 4, 5 :: nat] (new_Semaphore 3))) =
       ([Some 4, Some 5], \<lparr>permits = 0, waitQueue = []\<rparr>)"
    by (simp add: numeral_eq_Suc)
  from a b show ?thesis by blast
qed

lemma semaphore_step_nonneg:
  "0 \<le> permits s \<and> (semaphore.waitQueue s \<noteq> [] \<longrightarrow> permits s = 0) \<Longrightarrow>
   0 \<le> permits (semaphore_step ev s) \<and>
   (semaphore.waitQueue (semaphore_step ev s) \<noteq> [] \<longrightarrow> permits (semaphore_step ev s) = 0)"
  by (cases ev) (auto simp: semaphore_acquire_def semaphore_release_def split: list.splits)

lemma semaphore_run_nonneg:
  "0 \<le> permits s \<and> (semaphore.waitQueue s \<noteq> [] \<longrightarrow> permits s = 0) \<Longrightarrow>
   0 \<le> permits (semaphore_run evs s) \<and>
   (semaphore.waitQueue (semaphore_run evs s) \<noteq> [] \<longrightarrow> permits (semaphore_run evs s) = 0)"
proof (induction evs arbitrary: s)
  case Nil
  then show ?case by simp
next
  case (Cons ev evs)
  from Cons.IH [OF semaphore_step_nonneg [OF Cons.prems]] show ?case by simp
qed

lemma semaphore_held_total:
  "semaphore_held evs s h = Some h' \<Longrightarrow>
   0 \<le> permits s \<and> (semaphore.waitQueue s \<noteq> [] \<longrightarrow> permits s = 0) \<Longrightarrow>
   permits (semaphore_run evs s) + int h' = permits s + int h"
proof (induction evs s h rule: semaphore_held.induct)
  case (1 s h)
  then show ?case by simp
next
  case (2 w evs s h)
  let ?s' = "semaphore_step (Acquire w) s"
  note q = semaphore_step_nonneg [OF "2.prems"(2), of "Acquire w"]
  have "permits ?s' + int (if permits s > 0 then Suc h else h) = permits s + int h"
    by (simp add: semaphore_acquire_def)
  with "2.IH" [OF _ q] "2.prems"(1) show ?case by simp
next
  case (3 evs s h)
  let ?s' = "semaphore_step Release s"
  from "3.prems"(1) have h: "h \<noteq> 0"
    by (auto split: if_splits)
  note q = semaphore_step_nonneg [OF "3.prems"(2), of Release]
  have "permits ?s' + int (if semaphore.waitQueue s = [] then h - 1 else h) = permits s + int h"
    using h by (auto simp: semaphore_release_def split: list.splits)
  with "3.IH" [OF h _ q] "3.prems"(1) h show ?case by simp
qed

text \<open>
  Claim C5, as stated: for a semaphore of capacity \<open>C\<close>, after every sequence of
  \<^verbatim>\<open>acquire()\<close> and \<^verbatim>\<open>release()\<close> calls, \<open>0 \<le> permits \<le> C\<close> when the wait queue is empty
  and \<open>permits = 0\<close> when it is not. The upper bound fails: \<^verbatim>\<open>release()\<close> increments the
  counter whenever nobody is queued, and the class has no record of its capacity. One
  \<^verbatim>\<open>release()\<close> on a fresh semaphore of capacity 3 leaves 4 permits and an empty queue.
\<close>

theorem semaphore_invariant_counterexample:
  "\<not> ((semaphore.waitQueue (semaphore_run [Release] (new_Semaphore 3 :: nat semaphore)) = [] \<longrightarrow>
         0 \<le> permits (semaphore_run [Release] (new_Semaphore 3 :: nat semaphore)) \<and>
         permits (semaphore_run [Release] (new_Semaphore 3 :: nat semaphore)) \<le> 3)
      \<and> (semaphore.waitQueue (semaphore_run [Release] (new_Semaphore 3 :: nat semaphore)) \<noteq> [] \<longrightarrow>
         permits (semaphore_run [Release] (new_Semaphore 3 :: nat semaphore)) = 0))"
  by (simp add: new_Semaphore_def semaphore_release_def)

text \<open>
  Claim C5, amended. For a semaphore constructed with capacity \<open>C \<ge> 0\<close>, after every
  sequence of \<^verbatim>\<open>acquire()\<close> and \<^verbatim>\<open>release()\<close> calls the permit count is at least 0, and it
  is 0 whenever the wait queue is not empty. If in addition every \<^verbatim>\<open>release()\<close> of the
  sequence was called while some admitted caller had not yet released, then the permit
  count plus the number of current holders is \<open>C\<close>, so that \<open>permits \<le> C\<close>.
\<close>

theorem semaphore_invariant:
  assumes "0 \<le> C" and "s = semaphore_run evs (new_Semaphore C)"
  shows "0 \<le> permits s
       \<and> (semaphore.waitQueue s \<noteq> [] \<longrightarrow> permits s = 0)
       \<and> (\<forall>h. semaphore_held evs (new_Semaphore C) 0 = Some h \<longrightarrow>
              permits s + int h = C \<and> permits s \<le> C)"
proof -
  have "0 \<le> permits (new_Semaphore C :: 'a semaphore) \<and>
      (semaphore.waitQueue (new_Semaphore C :: 'a semaphore) \<noteq> [] \<longrightarrow>
       permits (new_Semaphore C :: 'a semaphore) = 0)"
    using assms(1) by (simp add: new_Semaphore_def)
  from semaphore_run_nonneg [OF this, of evs] assms(2)
  have a: "0 \<le> permits s \<and> (semaphore.waitQueue s \<noteq> [] \<longrightarrow> permits s = 0)"
    by simp
  have b: "permits s + int h = C \<and> permits s \<le> C"
    if "semaphore_held evs (new_Semaphore C) 0 = Some h" for h
  proof -
    have "permits (semaphore_run evs (new_Semaphore C :: 'a semaphore)) + int h =
        permits (new_Semaphore C :: 'a semaphore) + int 0"
      by (rule semaphore_held_total [OF that]) (simp add: new_Semaphore_def assms(1))
    with assms(2) show ?thesis by (simp add: new_Semaphore_def)
  qed
  from a b show ?thesis by blast
qed

theorem semaphore_invariant_witness:
  "permits (semaphore_run [Acquire (1::nat), Acquire 2, Acquire 3, Release] (new_Semaphore 2)) = 0
   \<and> semaphore.waitQueue (semaphore_run [Acquire (1::nat), Acquire 2, Acquire 3, Release] (new_Semaphore 2)) = []
   \<and> semaphore_held [Acquire (1::nat), Acquire 2, Acquire 3, Release] (new_Semaphore 2) 0 = Some 2
   \<and> permits (semaphore_run [Acquire (1::nat), Acquire 2, Acquire 3, Release] (new_Semaphore 2)) + int 2 = 2"
proof -
  let ?evs = "[Acquire (1::nat), Acquire 2, Acquire 3, Release]"
  have r: "semaphore_run ?evs (new_Semaphore 2) = \<lparr>permits = 0, waitQueue = []\<rparr>"
    by (simp add: new_Semaphore_def semaphore_acquire_def semaphore_release_def)
  have h: "semaphore_held ?evs (new_Semaphore 2) 0 = Some 2"
    by (simp add: new_Semaphore_def semaphore_acquire_def semaphore_release_def)
  have c: "(0::int) \<le> 2" by simp
  from semaphore_invariant [OF c refl, of ?evs] h
  have "permits (semaphore_run ?evs (new_Semaphore 2)) + int 2 = 2" by blast
  with r h show ?thesis by simp
qed

section \<open>Release without a holder\<close>

text \<open>
  Claim C6, as stated: \<^verbatim>\<open>release()\<close> on a primitive with no holder and no waiter leaves
  its state unchanged, for Mutex and for Semaphore. For Semaphore this fails: with all
  permits available, \<^verbatim>\<open>release()\<close> adds a permit.
\<close>

theorem semaphore_release_idle_counterexample:
  "snd (semaphore_release (new_Semaphore 3 :: nat semaphore)) \<noteq> new_Semaphore 3
   \<and> availablePermits (snd (semaphore_release (new_Semaphore 3 :: nat semaphore))) = 4"
  by (simp add: new_Semaphore_def semaphore_release_def availablePermits_def)

text \<open>
  Claim C6, amended. \<^verbatim>\<open>release()\<close> raises no error in either class (the model functions
  are total and have no error result). On a Mutex that is unlocked and has no waiter it
  resumes nobody and leaves the state as it is. On a Semaphore with no waiter it resumes
  nobody and adds one permit, whatever the count was, so the state does change.
\<close>

theorem release_idle:
  "(\<not> isLocked m \<and> mutex.waitQueue m = [] \<longrightarrow> mutex_release m = (None, m))
   \<and> (semaphore.waitQueue s = [] \<longrightarrow>
        semaphore_release s = (None, s\<lparr>permits := permits s + 1\<rparr>)
        \<and> availablePermits (snd (semaphore_release s)) = availablePermits s + 1
        \<and> snd (semaphore_release s) \<noteq> s)"
proof -
  have a: "mutex_release m = (None, m)" if "\<not> isLocked m" and "mutex.waitQueue m = []"
  proof -
    from that(1) have "m\<lparr>locked := False\<rparr> = m" by (simp add: isLocked_def)
    with that(2) show ?thesis by (simp add: mutex_release_def)
  qed
  have b: "semaphore_release s = (None, s\<lparr>permits := permits s + 1\<rparr>)
      \<and> availablePermits (snd (semaphore_release s)) = availablePermits s + 1
      \<and> snd (semaphore_release s) \<noteq> s" if "semaphore.waitQueue s = []"
  proof -
    have r: "semaphore_release s = (None, s\<lparr>permits := permits s + 1\<rparr>)"
      using that by (simp add: semaphore_release_def)
    have "permits (s\<lparr>permits := permits s + 1\<rparr>) \<noteq> permits s" by simp
    then have "s\<lparr>permits := permits s + 1\<rparr> \<noteq> s" by metis
    with r show ?thesis by (simp add: availablePermits_def)
  qed
  from a b show ?thesis by blast
qed

theorem release_idle_witness:
  "mutex_release (new_Mutex :: nat mutex) = (None, new_Mutex)
   \<and> semaphore_release (new_Semaphore 3 :: nat semaphore) = (None, new_Semaphore 4)"
proof -
  have m: "\<not> isLocked (new_Mutex :: nat mutex) \<and> mutex.waitQueue (new_Mutex :: nat mutex) = []"
    by (simp add: new_Mutex_def isLocked_def)
  have s: "semaphore.waitQueue (new_Semaphore 3 :: nat semaphore) = []"
    by (simp add: new_Semaphore_def)
  from release_idle [of "new_Mutex :: nat mutex" "new_Semaphore 3 :: nat semaphore"] m s
  have "mutex_release (new_Mutex :: nat mutex) = (None, new_Mutex)"
    and "semaphore_release (new_Semaphore 3 :: nat semaphore) =
         (None, (new_Semaphore 3)\<lparr>permits := permits (new_Semaphore 3 :: nat semaphore) + 1\<rparr>)"
    by blast+
  then show ?thesis by (simp add: new_Semaphore_def)
qed

section \<open>Properties of DataChangeMutex\<close>

lemma mutex_acquire_free:
  "\<not> locked m \<Longrightarrow> mutex_acquire w m = (Resolved (), m\<lparr>locked := True\<rparr>)"
  by (simp add: mutex_acquire_def)

lemma mutex_acquire_held:
  "locked m \<Longrightarrow> mutex_acquire w m = (Pending, m\<lparr>mutex.waitQueue := mutex.waitQueue m @ [w]\<rparr>)"
  by (simp add: mutex_acquire_def)

lemma acquireIfChanged_unchanged:
  "lastData d \<noteq> JNull \<Longrightarrow> compareFunction (lastData d) newData \<Longrightarrow>
   acquireIfChanged w newData compareFunction d = (Resolved False, d)"
  by (simp add: acquireIfChanged_def acquireIfChanged_begin_def)

lemma acquireIfChanged_free:
  "lastData d = JNull \<or> \<not> compareFunction (lastData d) newData \<Longrightarrow> \<not> locked d \<Longrightarrow>
   acquireIfChanged w newData compareFunction d =
     (Resolved True, d\<lparr>locked := True, lastData := newData\<rparr>)"
  by (auto simp: acquireIfChanged_def acquireIfChanged_begin_def acquireIfChanged_resume_def
      mutex_acquire_free)

lemma acquireIfChanged_held:
  "lastData d = JNull \<or> \<not> compareFunction (lastData d) newData \<Longrightarrow> locked d \<Longrightarrow>
   acquireIfChanged w newData compareFunction d =
     (Pending, d\<lparr>mutex.waitQueue := mutex.waitQueue d @ [w]\<rparr>)"
  by (auto simp: acquireIfChanged_def acquireIfChanged_begin_def mutex_acquire_held)

text \<open>
  Claim C7. \<^verbatim>\<open>acquireIfChanged(newData, compareFn)\<close>, for every comparison function (the
  default \<open>defaultCompare\<close> included; what the default judges equal is the subject of
  claim C10). A baseline exists when \<open>lastData\<close> is not \<^verbatim>\<open>null\<close>.
  \<^item> Baseline exists and \<open>compareFn\<close> judges it equal to \<open>newData\<close>: the call returns
    \<^verbatim>\<open>false\<close> and leaves the object as it was: it neither takes the lock nor queues.
  \<^item> No baseline, or \<open>compareFn\<close> judges them different, and the lock is free: the call
    takes the lock, stores \<open>newData\<close> as the baseline and returns \<^verbatim>\<open>true\<close>.
  \<^item> No baseline, or judged different, and the lock is held: the call has called
    \<^verbatim>\<open>acquire()\<close> and waits in the queue; when it is resumed, it stores \<open>newData\<close> and
    returns \<^verbatim>\<open>true\<close>.
\<close>

theorem acquireIfChanged_gate:
  "(lastData d \<noteq> JNull \<and> compareFunction (lastData d) newData \<longrightarrow>
      acquireIfChanged w newData compareFunction d = (Resolved False, d))
   \<and> ((lastData d = JNull \<or> \<not> compareFunction (lastData d) newData) \<and> \<not> isLocked d \<longrightarrow>
      acquireIfChanged w newData compareFunction d =
        (Resolved True, d\<lparr>locked := True, lastData := newData\<rparr>))
   \<and> ((lastData d = JNull \<or> \<not> compareFunction (lastData d) newData) \<and> isLocked d \<longrightarrow>
      acquireIfChanged w newData compareFunction d =
        (Pending, d\<lparr>mutex.waitQueue := mutex.waitQueue d @ [w]\<rparr>)
      \<and> (\<forall>d'. acquireIfChanged_resume newData d' = (True, d'\<lparr>lastData := newData\<rparr>)))"
  using acquireIfChanged_unchanged [of d compareFunction newData w]
    acquireIfChanged_free [of d compareFunction newData w]
    acquireIfChanged_held [of d compareFunction newData w]
  by (simp add: isLocked_def acquireIfChanged_resume_def)

theorem acquireIfChanged_gate_witness:
  "acquireIfChanged (5::nat) (JNum (Finite 1)) defaultCompare
      \<lparr>locked = True, waitQueue = [], lastData = JNum (Finite 1)\<rparr> =
     (Resolved False, \<lparr>locked = True, waitQueue = [], lastData = JNum (Finite 1)\<rparr>)
   \<and> acquireIfChanged (5::nat) (JNum (Finite 2)) defaultCompare
      \<lparr>locked = False, waitQueue = [], lastData = JNum (Finite 1)\<rparr> =
     (Resolved True, \<lparr>locked = True, waitQueue = [], lastData = JNum (Finite 2)\<rparr>)
   \<and> acquireIfChanged (5::nat) (JNum (Finite 2)) defaultCompare
      \<lparr>locked = True, waitQueue = [], lastData = JNum (Finite 1)\<rparr> =
     (Pending, \<lparr>locked = True, waitQueue = [5], lastData = JNum (Finite 1)\<rparr>)
   \<and> acquireIfChanged (5::nat) (JNum (Finite 2)) defaultCompare new_DataChangeMutex =
     (Resolved True, \<lparr>locked = True, waitQueue = [], lastData = JNum (Finite 2)\<rparr>)"
  using acquireIfChanged_gate [of "\<lparr>locked = True, waitQueue = [], lastData = JNum (Finite 1)\<rparr>"
      defaultCompare "JNum (Finite 1)" "5::nat"]
    acquireIfChanged_gate [of "\<lparr>locked = False, waitQueue = [], lastData = JNum (Finite 1)\<rparr>"
      defaultCompare "JNum (Finite 2)" "5::nat"]
    acquireIfChanged_gate [of "\<lparr>locked = True, waitQueue = [], lastData = JNum (Finite 1)\<rparr>"
      defaultCompare "JNum (Finite 2)" "5::nat"]
    acquireIfChanged_gate [of "new_DataChangeMutex" defaultCompare "JNum (Finite 2)" "5::nat"]
  by (auto simp: isLocked_def defaultCompare_def new_DataChangeMutex_def)

lemma mutex_release_lastData:
  "lastData (snd (mutex_release d)) = lastData d"
  by (simp add: mutex_release_def split: list.splits)

lemma mutex_acquire_lastData:
  "lastData (snd (mutex_acquire w d)) = lastData d"
  by (simp add: mutex_acquire_def)

lemma acquireIfChanged_no_baseline:
  "lastData d = JNull \<Longrightarrow>
   acquireIfChanged w newData compareFunction d =
     (if locked d then (Pending, d\<lparr>mutex.waitQueue := mutex.waitQueue d @ [w]\<rparr>)
      else (Resolved True, d\<lparr>locked := True, lastData := newData\<rparr>))"
  by (simp add: acquireIfChanged_free acquireIfChanged_held)

lemma last_grant_from_append:
  "last_grant_from g (os @ os') = last_grant_from (last_grant_from g os) os'"
  by (induction g os rule: last_grant_from.induct) simp_all

lemma acquireIfChanged_begin_cases:
  "acquireIfChanged_begin w x cmp d = (Returned False, d) \<or>
   (\<exists>p. acquireIfChanged_begin w x cmp d = (Awaiting p, snd (mutex_acquire w d)))"
  by (cases "mutex_acquire w d") (auto simp: acquireIfChanged_begin_def Let_def)

lemma dcm_step_baseline:
  assumes "dcm_step ev s = (os, s')" and "lastData (object s) = baseline_value g"
  shows "lastData (object s') = baseline_value (last_grant_from g os)"
proof (cases ev)
  case CallAcquire
  with assms show ?thesis
    by (auto simp: mutex_acquire_def split: if_splits)
next
  case (CallAcquireIfChanged x cmp)
  from acquireIfChanged_begin_cases [of "IfChangedCaller x" x cmp "object s"]
  show ?thesis
  proof
    assume "acquireIfChanged_begin (IfChangedCaller x) x cmp (object s) = (Returned False, object s)"
    with assms CallAcquireIfChanged show ?thesis by auto
  next
    assume "\<exists>p. acquireIfChanged_begin (IfChangedCaller x) x cmp (object s) =
        (Awaiting p, snd (mutex_acquire (IfChangedCaller x) (object s)))"
    then obtain p where "acquireIfChanged_begin (IfChangedCaller x) x cmp (object s) =
        (Awaiting p, snd (mutex_acquire (IfChangedCaller x) (object s)))" ..
    with assms CallAcquireIfChanged show ?thesis
      by (cases p) (auto simp: mutex_acquire_lastData)
  qed
next
  case CallRelease
  with assms mutex_release_lastData [of "object s"] show ?thesis
    by (auto split: prod.splits)
next
  case (CallReleaseWithData c)
  with assms mutex_release_lastData [of "object s"]
    mutex_release_lastData [of "(object s)\<lparr>lastData := JNull\<rparr>"]
  show ?thesis
    by (auto simp: releaseWithData_def baseline_value_def split: prod.splits if_splits)
next
  case (RunContinuation i)
  with assms show ?thesis
    by (auto simp: acquireIfChanged_resume_def baseline_value_def split: if_splits caller.splits)
qed

lemma dcm_run_baseline:
  "dcm_run evs s = (os, s') \<Longrightarrow> lastData (object s) = baseline_value g \<Longrightarrow>
   lastData (object s') = baseline_value (last_grant_from g os)"
proof (induction evs arbitrary: s os g s')
  case Nil
  then show ?case by simp
next
  case (Cons ev evs)
  obtain o1 s1 where 1: "dcm_step ev s = (o1, s1)" by (cases "dcm_step ev s")
  obtain o2 s2 where 2: "dcm_run evs s1 = (o2, s2)" by (cases "dcm_run evs s1")
  from Cons.prems(1) 1 2 have e: "os = o1 @ o2" "s' = s2" by simp_all
  from dcm_step_baseline [OF 1 Cons.prems(2)]
  have "lastData (object s1) = baseline_value (last_grant_from g o1)" .
  from Cons.IH [OF 2 this] e show ?case by (simp add: last_grant_from_append)
qed

lemma last_grant_from_no_grant:
  "\<forall>x. Granted x \<notin> set os \<Longrightarrow> last_grant_from None os = None"
proof (induction os)
  case Nil
  show ?case by simp
next
  case (Cons ob os)
  from Cons.prems have t: "\<forall>x. Granted x \<notin> set os" and h: "\<forall>x. ob \<noteq> Granted x"
    by auto
  from Cons.IH [OF t] h show ?case by (cases ob) simp_all
qed

lemma dcm_step_clear_lastData:
  "dcm_step (CallReleaseWithData True) s = (os, s') \<Longrightarrow> lastData (object s') = JNull"
  using mutex_release_lastData [of "(object s)\<lparr>lastData := JNull\<rparr>"]
  by (auto simp: releaseWithData_def split: prod.splits)

lemma dcm_step_acquireIfChanged_no_baseline:
  "lastData (object s) = JNull \<Longrightarrow>
   dcm_step (CallAcquireIfChanged X cmp) s =
     (if locked (object s) then
        ([], s\<lparr>object := (object s)\<lparr>mutex.waitQueue :=
                    mutex.waitQueue (object s) @ [IfChangedCaller X]\<rparr>\<rparr>)
      else
        ([], s\<lparr>object := (object s)\<lparr>locked := True\<rparr>,
                resolved := resolved s @ [IfChangedCaller X]\<rparr>))"
  by (simp add: acquireIfChanged_begin_def mutex_acquire_def)

lemma dcm_step_continuation_grants:
  "i < length (resolved s) \<Longrightarrow> resolved s ! i = IfChangedCaller X \<Longrightarrow>
   dcm_step (RunContinuation i) s =
     ([Granted X],
      s\<lparr>object := (object s)\<lparr>lastData := X\<rparr>,
        resolved := take i (resolved s) @ drop (Suc i) (resolved s)\<rparr>)"
  by (simp add: acquireIfChanged_resume_def)

text \<open>
  Claim C8, as stated: after \<^verbatim>\<open>releaseWithData(true)\<close> the next call
  \<^verbatim>\<open>acquireIfChanged(X)\<close> returns \<^verbatim>\<open>true\<close>, also when \<open>X\<close> equals the baseline from before the
  clear. This fails when the release hands the lock to a queued \<^verbatim>\<open>acquireIfChanged\<close>
  call: that call's continuation stores its own data as the new baseline, and a later
  call with the same data is judged unchanged. In the first run below two calls
  \<^verbatim>\<open>acquireIfChanged('a')\<close> are made in one turn (both see no baseline, the second
  queues), the holder clears and releases, the waiter resumes and stores \<^verbatim>\<open>'a'\<close>, and the
  next \<^verbatim>\<open>acquireIfChanged('a')\<close> returns \<^verbatim>\<open>false\<close>. In the second run the waiter was
  queued with changed data \<^verbatim>\<open>'b'\<close>, and the next \<^verbatim>\<open>acquireIfChanged('b')\<close> after the clear
  returns \<^verbatim>\<open>false\<close>.
\<close>

theorem releaseWithData_next_call_counterexample:
  "fst (dcm_run [CallAcquireIfChanged (JStr ''a'') defaultCompare,
                 CallAcquireIfChanged (JStr ''a'') defaultCompare,
                 RunContinuation 0,
                 CallReleaseWithData True,
                 RunContinuation 0,
                 CallAcquireIfChanged (JStr ''a'') defaultCompare] new_dcm_system) =
     [Granted (JStr ''a''), Cleared, Granted (JStr ''a''), Declined]
   \<and> fst (dcm_run [CallAcquireIfChanged (JStr ''a'') defaultCompare,
                   RunContinuation 0,
                   CallAcquireIfChanged (JStr ''b'') defaultCompare,
                   CallReleaseWithData True,
                   RunContinuation 0,
                   CallAcquireIfChanged (JStr ''b'') defaultCompare] new_dcm_system) =
     [Granted (JStr ''a''), Cleared, Granted (JStr ''b''), Declined]"
  by (simp add: new_dcm_system_def new_DataChangeMutex_def acquireIfChanged_begin_def
      acquireIfChanged_resume_def mutex_acquire_def mutex_release_def releaseWithData_def
      defaultCompare_def resume_of_def)

text \<open>
  Claim C8, amended. \<^verbatim>\<open>releaseWithData(true)\<close> sets the baseline to \<^verbatim>\<open>null\<close> and then calls
  the inherited \<^verbatim>\<open>release()\<close>; \<^verbatim>\<open>releaseWithData(false)\<close> only calls \<^verbatim>\<open>release()\<close> and
  leaves the baseline as it is; with nobody queued the lock is free afterwards.

  A call \<^verbatim>\<open>acquireIfChanged(X, compareFn)\<close> that follows \<^verbatim>\<open>releaseWithData(true)\<close> never
  returns \<^verbatim>\<open>false\<close>, for every \<open>X\<close> (also the baseline from before the clear) and every
  comparison function, as long as no \<^verbatim>\<open>acquireIfChanged\<close> call has returned \<^verbatim>\<open>true\<close> between
  the clear and that call. Other calls and continuations may run in between. The call
  takes the lock at once if it is free, and queues if it is held (for instance because
  the release handed it to a waiter); in both cases its continuation, once run, stores
  \<open>X\<close> and returns \<^verbatim>\<open>true\<close>.

  The first conjuncts state this for a call made on the very state that
  \<^verbatim>\<open>releaseWithData(true)\<close> leaves; the last two state it for every sequence of events
  after the clear in which no call is granted.
\<close>

theorem releaseWithData_clear:
  "releaseWithData True d = mutex_release (d\<lparr>lastData := JNull\<rparr>)
   \<and> getLastData (snd (releaseWithData True d)) = JNull
   \<and> releaseWithData False d = mutex_release d
   \<and> getLastData (snd (releaseWithData False d)) = getLastData d
   \<and> fst (acquireIfChanged w X compareFunction (snd (releaseWithData True d))) \<noteq> Resolved False
   \<and> (mutex.waitQueue d = [] \<longrightarrow>
        \<not> isLocked (snd (releaseWithData clearData d))
        \<and> acquireIfChanged w X compareFunction (snd (releaseWithData True d)) =
            (Resolved True, d\<lparr>locked := True, lastData := X\<rparr>))
   \<and> (mutex.waitQueue d \<noteq> [] \<and> isLocked d \<longrightarrow>
        fst (releaseWithData True d) = Some (hd (mutex.waitQueue d))
        \<and> acquireIfChanged w X compareFunction (snd (releaseWithData True d)) =
            (Pending, d\<lparr>mutex.waitQueue := tl (mutex.waitQueue d) @ [w], lastData := JNull\<rparr>))
   \<and> (dcm_step (CallReleaseWithData True) s1 = (o2, s2) \<and> dcm_run evs s2 = (o3, s3)
        \<and> (\<forall>x. Granted x \<notin> set o3) \<longrightarrow>
        getLastData (object s3) = JNull
        \<and> dcm_step (CallAcquireIfChanged X cmp) s3 =
            (if locked (object s3) then
               ([], s3\<lparr>object := (object s3)\<lparr>mutex.waitQueue :=
                            mutex.waitQueue (object s3) @ [IfChangedCaller X]\<rparr>\<rparr>)
             else
               ([], s3\<lparr>object := (object s3)\<lparr>locked := True\<rparr>,
                        resolved := resolved s3 @ [IfChangedCaller X]\<rparr>)))
   \<and> (i < length (resolved s) \<and> resolved s ! i = IfChangedCaller X \<longrightarrow>
        dcm_step (RunContinuation i) s =
          ([Granted X],
           s\<lparr>object := (object s)\<lparr>lastData := X\<rparr>,
             resolved := take i (resolved s) @ drop (Suc i) (resolved s)\<rparr>))"
proof -
  let ?d = "snd (releaseWithData True d)"
  have a: "releaseWithData True d = mutex_release (d\<lparr>lastData := JNull\<rparr>)"
    and b: "releaseWithData False d = mutex_release d"
    by (simp_all add: releaseWithData_def)
  have n: "lastData ?d = JNull"
    unfolding a by (simp add: mutex_release_lastData)
  have c: "getLastData (snd (releaseWithData False d)) = getLastData d"
    unfolding b by (simp add: getLastData_def mutex_release_lastData)
  have e: "fst (acquireIfChanged w X compareFunction ?d) \<noteq> Resolved False"
    by (simp add: acquireIfChanged_no_baseline [OF n])
  have f: "\<not> isLocked (snd (releaseWithData clearData d))
        \<and> acquireIfChanged w X compareFunction ?d =
            (Resolved True, d\<lparr>locked := True, lastData := X\<rparr>)"
    if "mutex.waitQueue d = []"
  proof -
    from that have r: "?d = d\<lparr>locked := False, lastData := JNull\<rparr>"
      by (simp add: releaseWithData_def mutex_release_def)
    from that have "\<not> isLocked (snd (releaseWithData clearData d))"
      by (simp add: releaseWithData_def mutex_release_def isLocked_def)
    moreover have "acquireIfChanged w X compareFunction ?d =
            (Resolved True, d\<lparr>locked := True, lastData := X\<rparr>)"
      unfolding r by (simp add: acquireIfChanged_no_baseline)
    ultimately show ?thesis by simp
  qed
  have g: "fst (releaseWithData True d) = Some (hd (mutex.waitQueue d))
        \<and> acquireIfChanged w X compareFunction ?d =
            (Pending, d\<lparr>mutex.waitQueue := tl (mutex.waitQueue d) @ [w], lastData := JNull\<rparr>)"
    if "mutex.waitQueue d \<noteq> []" and "isLocked d"
  proof -
    from that(1) obtain v vs where q: "mutex.waitQueue d = v # vs"
      by (cases "mutex.waitQueue d") auto
    have r: "releaseWithData True d = (Some v, d\<lparr>mutex.waitQueue := vs, lastData := JNull\<rparr>)"
      by (simp add: releaseWithData_def mutex_release_def q)
    have "acquireIfChanged w X compareFunction (d\<lparr>mutex.waitQueue := vs, lastData := JNull\<rparr>) =
        (Pending, d\<lparr>mutex.waitQueue := vs @ [w], lastData := JNull\<rparr>)"
      using that(2) by (simp add: acquireIfChanged_no_baseline isLocked_def)
    with r q show ?thesis by simp
  qed
  have h: "getLastData (object s3) = JNull
        \<and> dcm_step (CallAcquireIfChanged X cmp) s3 =
            (if locked (object s3) then
               ([], s3\<lparr>object := (object s3)\<lparr>mutex.waitQueue :=
                            mutex.waitQueue (object s3) @ [IfChangedCaller X]\<rparr>\<rparr>)
             else
               ([], s3\<lparr>object := (object s3)\<lparr>locked := True\<rparr>,
                        resolved := resolved s3 @ [IfChangedCaller X]\<rparr>))"
    if "dcm_step (CallReleaseWithData True) s1 = (o2, s2)" and "dcm_run evs s2 = (o3, s3)"
      and "\<forall>x. Granted x \<notin> set o3"
  proof -
    from dcm_step_clear_lastData [OF that(1)]
    have "lastData (object s2) = baseline_value None" by (simp add: baseline_value_def)
    from dcm_run_baseline [OF that(2) this] last_grant_from_no_grant [OF that(3)]
    have l: "lastData (object s3) = JNull" by (simp add: baseline_value_def)
    from dcm_step_acquireIfChanged_no_baseline [OF l, of X cmp] l
    show ?thesis by (simp add: getLastData_def)
  qed
  have k: "dcm_step (RunContinuation i) s =
          ([Granted X],
           s\<lparr>object := (object s)\<lparr>lastData := X\<rparr>,
             resolved := take i (resolved s) @ drop (Suc i) (resolved s)\<rparr>)"
    if "i < length (resolved s)" and "resolved s ! i = IfChangedCaller X"
    using that by (rule dcm_step_continuation_grants)
  have n': "getLastData ?d = JNull" using n by (simp add: getLastData_def)
  from a n' b c e f g h k show ?thesis by blast
qed

theorem releaseWithData_clear_witness:
  "acquireIfChanged (1::nat) (JStr ''x'') defaultCompare
      \<lparr>locked = True, waitQueue = [], lastData = JStr ''x''\<rparr> =
     (Resolved False, \<lparr>locked = True, waitQueue = [], lastData = JStr ''x''\<rparr>)
   \<and> snd (releaseWithData True \<lparr>locked = True, waitQueue = [] :: nat list, lastData = JStr ''x''\<rparr>) =
     \<lparr>locked = False, waitQueue = [], lastData = JNull\<rparr>
   \<and> acquireIfChanged (1::nat) (JStr ''x'') defaultCompare
      (snd (releaseWithData True \<lparr>locked = True, waitQueue = [], lastData = JStr ''x''\<rparr>)) =
     (Resolved True, \<lparr>locked = True, waitQueue = [], lastData = JStr ''x''\<rparr>)
   \<and> releaseWithData True \<lparr>locked = True, waitQueue = [7::nat], lastData = JStr ''x''\<rparr> =
     (Some 7, \<lparr>locked = True, waitQueue = [], lastData = JNull\<rparr>)
   \<and> acquireIfChanged (1::nat) (JStr ''x'') defaultCompare
      (snd (releaseWithData True \<lparr>locked = True, waitQueue = [7], lastData = JStr ''x''\<rparr>)) =
     (Pending, \<lparr>locked = True, waitQueue = [1], lastData = JNull\<rparr>)
   \<and> dcm_step (CallAcquireIfChanged (JStr ''x'') defaultCompare)
        \<lparr>object = \<lparr>locked = True, waitQueue = [], lastData = JNull\<rparr>, resolved = [AcquireCaller]\<rparr> =
       ([], \<lparr>object = \<lparr>locked = True, waitQueue = [IfChangedCaller (JStr ''x'')], lastData = JNull\<rparr>,
             resolved = [AcquireCaller]\<rparr>)
   \<and> dcm_step (RunContinuation 0)
        \<lparr>object = \<lparr>locked = True, waitQueue = [], lastData = JNull\<rparr>,
         resolved = [IfChangedCaller (JStr ''x'')]\<rparr> =
       ([Granted (JStr ''x'')],
        \<lparr>object = \<lparr>locked = True, waitQueue = [], lastData = JStr ''x''\<rparr>, resolved = []\<rparr>)"
proof -
  let ?d = "\<lparr>locked = True, waitQueue = [] :: nat list, lastData = JStr ''x''\<rparr>"
  let ?e = "\<lparr>locked = True, waitQueue = [7::nat], lastData = JStr ''x''\<rparr>"
  let ?s1 = "\<lparr>object = \<lparr>locked = True, waitQueue = [], lastData = JStr ''x''\<rparr>, resolved = []\<rparr>"
  let ?s2 = "\<lparr>object = \<lparr>locked = False, waitQueue = [], lastData = JNull\<rparr>, resolved = []\<rparr>"
  let ?s3 = "\<lparr>object = \<lparr>locked = True, waitQueue = [], lastData = JNull\<rparr>,
             resolved = [AcquireCaller]\<rparr>"
  let ?s4 = "\<lparr>object = \<lparr>locked = True, waitQueue = [], lastData = JNull\<rparr>,
             resolved = [IfChangedCaller (JStr ''x'')]\<rparr>"
  have 1: "acquireIfChanged (1::nat) (JStr ''x'') defaultCompare ?d = (Resolved False, ?d)"
    by (simp add: acquireIfChanged_def acquireIfChanged_begin_def defaultCompare_def)
  have 2: "snd (releaseWithData True ?d) = \<lparr>locked = False, waitQueue = [], lastData = JNull\<rparr>"
    by (simp add: releaseWithData_def mutex_release_def)
  have r: "dcm_step (CallReleaseWithData True) ?s1 = ([Cleared], ?s2)"
    by (simp add: releaseWithData_def mutex_release_def resume_of_def)
  have q: "dcm_run [CallAcquire] ?s2 = ([], ?s3)"
    by (simp add: mutex_acquire_def)
  have g: "\<forall>x. Granted x \<notin> set ([] :: observation list)" by simp
  have c: "0 < length (resolved ?s4) \<and> resolved ?s4 ! 0 = IfChangedCaller (JStr ''x'')" by simp
  note td = releaseWithData_clear [where d = ?d and w = 1 and X = "JStr ''x''"
      and compareFunction = defaultCompare and clearData = True
      and ?s1.0 = ?s1 and ?o2.0 = "[Cleared]" and ?s2.0 = ?s2
      and evs = "[CallAcquire]" and ?o3.0 = "[]" and ?s3.0 = ?s3
      and cmp = defaultCompare and s = ?s4 and i = 0]
  note te = releaseWithData_clear [where d = ?e and w = 1 and X = "JStr ''x''"
      and compareFunction = defaultCompare and clearData = True
      and ?s1.0 = ?s1 and ?o2.0 = "[Cleared]" and ?s2.0 = ?s2
      and evs = "[CallAcquire]" and ?o3.0 = "[]" and ?s3.0 = ?s3
      and cmp = defaultCompare and s = ?s4 and i = 0]
  have 3: "acquireIfChanged (1::nat) (JStr ''x'') defaultCompare (snd (releaseWithData True ?d)) =
     (Resolved True, \<lparr>locked = True, waitQueue = [], lastData = JStr ''x''\<rparr>)"
  proof -
    have "mutex.waitQueue ?d = []" by simp
    with td
    have "acquireIfChanged (1::nat) (JStr ''x'') defaultCompare (snd (releaseWithData True ?d)) =
        (Resolved True, ?d\<lparr>locked := True, lastData := JStr ''x''\<rparr>)"
      by blast
    then show ?thesis by simp
  qed
  have 4: "releaseWithData True ?e = (Some 7, \<lparr>locked = True, waitQueue = [], lastData = JNull\<rparr>)"
    by (simp add: releaseWithData_def mutex_release_def)
  have 5: "acquireIfChanged (1::nat) (JStr ''x'') defaultCompare (snd (releaseWithData True ?e)) =
     (Pending, \<lparr>locked = True, waitQueue = [1], lastData = JNull\<rparr>)"
  proof -
    have "mutex.waitQueue ?e \<noteq> [] \<and> isLocked ?e" by (simp add: isLocked_def)
    with te
    have "acquireIfChanged (1::nat) (JStr ''x'') defaultCompare (snd (releaseWithData True ?e)) =
        (Pending, ?e\<lparr>mutex.waitQueue := tl (mutex.waitQueue ?e) @ [1], lastData := JNull\<rparr>)"
      by blast
    then show ?thesis by simp
  qed
  have 6: "dcm_step (CallAcquireIfChanged (JStr ''x'') defaultCompare) ?s3 =
       ([], \<lparr>object = \<lparr>locked = True, waitQueue = [IfChangedCaller (JStr ''x'')], lastData = JNull\<rparr>,
             resolved = [AcquireCaller]\<rparr>)"
  proof -
    from td r q g
    have "dcm_step (CallAcquireIfChanged (JStr ''x'') defaultCompare) ?s3 =
        (if locked (object ?s3) then
           ([], ?s3\<lparr>object := (object ?s3)\<lparr>mutex.waitQueue :=
                        mutex.waitQueue (object ?s3) @ [IfChangedCaller (JStr ''x'')]\<rparr>\<rparr>)
         else
           ([], ?s3\<lparr>object := (object ?s3)\<lparr>locked := True\<rparr>,
                    resolved := resolved ?s3 @ [IfChangedCaller (JStr ''x'')]\<rparr>))"
      by blast
    then show ?thesis by simp
  qed
  have 7: "dcm_step (RunContinuation 0) ?s4 =
       ([Granted (JStr ''x'')],
        \<lparr>object = \<lparr>locked = True, waitQueue = [], lastData = JStr ''x''\<rparr>, resolved = []\<rparr>)"
  proof -
    from td c
    have "dcm_step (RunContinuation 0) ?s4 =
        ([Granted (JStr ''x'')],
         ?s4\<lparr>object := (object ?s4)\<lparr>lastData := JStr ''x''\<rparr>,
             resolved := take 0 (resolved ?s4) @ drop (Suc 0) (resolved ?s4)\<rparr>)"
      by blast
    then show ?thesis by simp
  qed
  from 1 2 3 4 5 6 7 show ?thesis by blast
qed

lemma strict_equals_typeof:
  "typeof a \<noteq> typeof b \<Longrightarrow> \<not> strict_equals a b"
  by (cases a; cases b) simp_all

text \<open>
  Claim C10. The default comparison function:
  \<^item> judges two values with different \<^verbatim>\<open>typeof\<close> unequal;
  \<^item> judges two objects (arrays included), neither of them \<^verbatim>\<open>null\<close>, equal exactly when
    \<^verbatim>\<open>JSON.stringify\<close> gives the same result for both;
  \<^item> judges a first argument that is not of type object (a primitive other than
    \<^verbatim>\<open>null\<close>, or a function) equal to the second exactly when \<^verbatim>\<open>===\<close> does;
  \<^item> judges nothing equal to a \<^verbatim>\<open>null\<close> baseline.
  This is not structural equality: two objects with the same properties in a different
  order are judged different, and values that differ only in what JSON cannot write (a
  function-valued or \<^verbatim>\<open>undefined\<close> property, \<^verbatim>\<open>undefined\<close> or \<^verbatim>\<open>NaN\<close> against \<^verbatim>\<open>null\<close> in an
  array) are judged equal.
\<close>

theorem defaultCompare_cases:
  "(typeof a \<noteq> typeof b \<longrightarrow> \<not> defaultCompare a b)
   \<and> (typeof a = ''object'' \<and> a \<noteq> JNull \<and> typeof b = ''object'' \<and> b \<noteq> JNull \<longrightarrow>
        defaultCompare a b = (JSON_stringify a = JSON_stringify b))
   \<and> (typeof a \<noteq> ''object'' \<longrightarrow> defaultCompare a b = strict_equals a b)
   \<and> \<not> defaultCompare JNull b
   \<and> \<not> defaultCompare (JObj 1 [(''a'', JNum (Finite 1)), (''b'', JNum (Finite 2))])
                        (JObj 2 [(''b'', JNum (Finite 2)), (''a'', JNum (Finite 1))])
   \<and> defaultCompare (JObj 1 [(''a'', JNum (Finite 1)), (''f'', JFun 7), (''u'', JUndefined)])
                      (JObj 2 [(''a'', JNum (Finite 1))])
   \<and> defaultCompare (JArr 3 [JUndefined, JNum NaN]) (JArr 4 [JNull, JNull])"
proof -
  have 1: "typeof a \<noteq> typeof b \<longrightarrow> \<not> defaultCompare a b"
    by (simp add: defaultCompare_def)
  have 2: "typeof a = ''object'' \<and> a \<noteq> JNull \<and> typeof b = ''object'' \<and> b \<noteq> JNull \<longrightarrow>
        defaultCompare a b = (JSON_stringify a = JSON_stringify b)"
    by (simp add: defaultCompare_def)
  have 3: "typeof a \<noteq> ''object'' \<longrightarrow> defaultCompare a b = strict_equals a b"
    using strict_equals_typeof [of a b] by (auto simp: defaultCompare_def)
  have 4: "\<not> defaultCompare JNull b"
    by (simp add: defaultCompare_def)
  have 5: "\<not> defaultCompare (JObj 1 [(''a'', JNum (Finite 1)), (''b'', JNum (Finite 2))])
                        (JObj 2 [(''b'', JNum (Finite 2)), (''a'', JNum (Finite 1))])"
    by (simp add: defaultCompare_def quote_def escape_char_def)
  have 6: "defaultCompare (JObj 1 [(''a'', JNum (Finite 1)), (''f'', JFun 7), (''u'', JUndefined)])
                      (JObj 2 [(''a'', JNum (Finite 1))])"
    by (simp add: defaultCompare_def)
  have 7: "defaultCompare (JArr 3 [JUndefined, JNum NaN]) (JArr 4 [JNull, JNull])"
    by (simp add: defaultCompare_def)
  from 1 2 3 4 5 6 7 show ?thesis by blast
qed

theorem defaultCompare_cases_witness:
  "\<not> defaultCompare (JStr ''1'') (JNum (Finite 1))
   \<and> defaultCompare (JObj 1 [(''k'', JStr ''v'')]) (JObj 2 [(''k'', JStr ''v'')])
   \<and> \<not> defaultCompare (JObj 1 [(''k'', JStr ''v'')]) (JArr 2 [JStr ''v''])
   \<and> defaultCompare (JNum (Finite 3)) (JNum (Finite 3))
   \<and> \<not> defaultCompare (JNum NaN) (JNum NaN)"
proof -
  have 1: "\<not> defaultCompare (JStr ''1'') (JNum (Finite 1))"
    using defaultCompare_cases [of "JStr ''1''" "JNum (Finite 1)"] by simp
  have 2: "defaultCompare (JObj 1 [(''k'', JStr ''v'')]) (JObj 2 [(''k'', JStr ''v'')])"
    using defaultCompare_cases [of "JObj 1 [(''k'', JStr ''v'')]" "JObj 2 [(''k'', JStr ''v'')]"]
    by simp
  have 3: "\<not> defaultCompare (JObj 1 [(''k'', JStr ''v'')]) (JArr 2 [JStr ''v''])"
    using defaultCompare_cases [of "JObj 1 [(''k'', JStr ''v'')]" "JArr 2 [JStr ''v'']"]
    by simp
  have 4: "defaultCompare (JNum (Finite 3)) (JNum (Finite 3))"
    using defaultCompare_cases [of "JNum (Finite 3)" "JNum (Finite 3)"] by simp
  have 5: "\<not> defaultCompare (JNum NaN) (JNum NaN)"
    using defaultCompare_cases [of "JNum NaN" "JNum NaN"] by simp
  from 1 2 3 4 5 show ?thesis by blast
qed

text \<open>
  Claim C9, as stated: after every sequence of operations, \<open>lastData\<close> is the \<open>newData\<close> of
  the most recent call of \<^verbatim>\<open>acquireIfChanged\<close> that returned \<^verbatim>\<open>true\<close>, and it is \<^verbatim>\<open>null\<close>
  only before the first such call or after a \<^verbatim>\<open>releaseWithData(true)\<close>. The second part
  fails when the data itself is \<^verbatim>\<open>null\<close>, which \<^verbatim>\<open>DataChangeMutex<any>\<close> accepts: on a
  fresh object \<^verbatim>\<open>acquireIfChanged(null)\<close> acquires the lock and returns \<^verbatim>\<open>true\<close>, and
  \<^verbatim>\<open>getLastData()\<close> is still \<^verbatim>\<open>null\<close>, with a successful acquisition and no clear behind
  it.
\<close>

theorem lastData_absent_counterexample:
  "fst (dcm_run [CallAcquireIfChanged JNull defaultCompare, RunContinuation 0] new_dcm_system) =
     [Granted JNull]
   \<and> \<not> (getLastData (object (snd (dcm_run
             [CallAcquireIfChanged JNull defaultCompare, RunContinuation 0] new_dcm_system))) = JNull
          \<longrightarrow> last_grant (fst (dcm_run
             [CallAcquireIfChanged JNull defaultCompare, RunContinuation 0] new_dcm_system)) = None)"
  by (simp add: new_dcm_system_def new_DataChangeMutex_def acquireIfChanged_begin_def
      acquireIfChanged_resume_def mutex_acquire_def last_grant_def getLastData_def)

text \<open>
  Claim C9, amended. For every sequence of calls of \<^verbatim>\<open>acquire\<close>, \<^verbatim>\<open>acquireIfChanged\<close>,
  \<^verbatim>\<open>release\<close> and \<^verbatim>\<open>releaseWithData\<close> on a fresh DataChangeMutex, with the continuations of
  suspended calls run at any later points: \<open>lastData\<close> is the \<open>newData\<close> of the most recent
  call of \<^verbatim>\<open>acquireIfChanged\<close> that returned \<^verbatim>\<open>true\<close> if there is one and no
  \<^verbatim>\<open>releaseWithData(true)\<close> came after it, and \<^verbatim>\<open>null\<close> otherwise. So \<^verbatim>\<open>getLastData()\<close> is
  \<^verbatim>\<open>null\<close> only before the first successful acquisition, after a clear, or when the
  \<open>newData\<close> of the most recent successful acquisition is itself \<^verbatim>\<open>null\<close>.
\<close>

theorem lastData_tracks_grant:
  assumes "dcm_run evs new_dcm_system = (os, s)"
  shows "getLastData (object s) = baseline_value (last_grant os)
       \<and> (getLastData (object s) = JNull \<longrightarrow> last_grant os = None \<or> last_grant os = Some JNull)"
proof -
  have "lastData (object new_dcm_system) = baseline_value None"
    by (simp add: new_dcm_system_def new_DataChangeMutex_def baseline_value_def)
  from dcm_run_baseline [OF assms this]
  have a: "getLastData (object s) = baseline_value (last_grant os)"
    by (simp add: getLastData_def last_grant_def)
  then show ?thesis by (cases "last_grant os") (simp_all add: baseline_value_def)
qed

theorem lastData_tracks_grant_witness:
  "dcm_run [CallAcquireIfChanged (JStr ''a'') defaultCompare, RunContinuation 0,
            CallAcquireIfChanged (JStr ''a'') defaultCompare,
            CallAcquireIfChanged (JStr ''b'') defaultCompare,
            CallReleaseWithData True, RunContinuation 0] new_dcm_system =
     ([Granted (JStr ''a''), Declined, Cleared, Granted (JStr ''b'')],
      \<lparr>object = \<lparr>locked = True, waitQueue = [], lastData = JStr ''b''\<rparr>, resolved = []\<rparr>)
   \<and> getLastData \<lparr>locked = True, waitQueue = [] :: caller list, lastData = JStr ''b''\<rparr> =
       baseline_value (last_grant [Granted (JStr ''a''), Declined, Cleared, Granted (JStr ''b'')])
   \<and> last_grant [Granted (JStr ''a''), Declined, Cleared, Granted (JStr ''b'')] = Some (JStr ''b'')"
proof -
  have r: "dcm_run [CallAcquireIfChanged (JStr ''a'') defaultCompare, RunContinuation 0,
            CallAcquireIfChanged (JStr ''a'') defaultCompare,
            CallAcquireIfChanged (JStr ''b'') defaultCompare,
            CallReleaseWithData True, RunContinuation 0] new_dcm_system =
     ([Granted (JStr ''a''), Declined, Cleared, Granted (JStr ''b'')],
      \<lparr>object = \<lparr>locked = True, waitQueue = [], lastData = JStr ''b''\<rparr>, resolved = []\<rparr>)"
    by (simp add: new_dcm_system_def new_DataChangeMutex_def acquireIfChanged_begin_def
        acquireIfChanged_resume_def mutex_acquire_def mutex_release_def releaseWithData_def
        defaultCompare_def resume_of_def)
  have g: "last_grant [Granted (JStr ''a''), Declined, Cleared, Granted (JStr ''b'')] =
      Some (JStr ''b'')"
    by (simp add: last_grant_def)
  from lastData_tracks_grant [OF r] r g show ?thesis by simp
qed

section \<open>Properties of scoped acquisition\<close>

text \<open>
  Claim C3. \<^verbatim>\<open>withMutex(key, fn)\<close> and \<^verbatim>\<open>withSemaphore(key, fn)\<close>, for every \<open>fn\<close>.
  \<^item> Once the lock or permit is granted, the helper runs \<open>fn\<close>, calls \<^verbatim>\<open>release()\<close> on the
    named primitive in the state \<open>fn\<close> left, and then settles with exactly what \<open>fn\<close>
    settled with: its value if it returned, its error if it threw. The error is passed
    on, never replaced or dropped, and the release has happened when the caller sees it.
  \<^item> If nobody is queued on the mutex when \<open>fn\<close> settles, \<^verbatim>\<open>isLocked()\<close> is false after the
    call; if nobody is queued on the semaphore, the permit count is one more than \<open>fn\<close>
    left it.
  \<^item> If the lock is free (a permit is available) at the call, the helper is granted it at
    once; otherwise it is queued, and the block above runs when it is resumed.
  \<^item> Uncontended case: the primitive is free with an empty queue at the call and \<open>fn\<close>
    leaves the registries as they are. Then the helper settles with \<open>fn\<close>'s value or
    error and the registries are back in the state before the call: the mutex is
    unlocked, the semaphore has its permit back.
\<close>

theorem scoped_release:
  fixes fn :: "'w registry \<Rightarrow> ('e + 'a) \<times> 'w registry"
    and sfn :: "'w registry \<Rightarrow> ('e + 'a) \<times> 'w registry"
  defines "gm \<equiv> \<lambda>g k. g\<lparr>mutexes := (mutexes g)(k := (mutexes g k)\<lparr>locked := True\<rparr>)\<rparr>"
    and "gs \<equiv> \<lambda>g j. g\<lparr>semaphores :=
            (semaphores g)(j := (semaphores g j)\<lparr>permits := permits (semaphores g j) - 1\<rparr>)\<rparr>"
  shows
  "(fn g = (r, g') \<longrightarrow>
      withMutex_resume k fn g =
        (r, g'\<lparr>mutexes := (mutexes g')(k := snd (mutex_release (mutexes g' k)))\<rparr>)
      \<and> (mutex.waitQueue (mutexes g' k) = [] \<longrightarrow>
            \<not> isLocked (mutexes (snd (withMutex_resume k fn g)) k)))
   \<and> (\<not> isLocked (mutexes g k) \<longrightarrow>
        withMutex w k fn g =
          (Resolved (fst (withMutex_resume k fn (gm g k))), snd (withMutex_resume k fn (gm g k))))
   \<and> (isLocked (mutexes g k) \<longrightarrow>
        withMutex w k fn g =
          (Pending, g\<lparr>mutexes := (mutexes g)(k := (mutexes g k)
                         \<lparr>mutex.waitQueue := mutex.waitQueue (mutexes g k) @ [w]\<rparr>)\<rparr>))
   \<and> (\<not> isLocked (mutexes g k) \<and> mutex.waitQueue (mutexes g k) = []
        \<and> fn (gm g k) = (r, gm g k) \<longrightarrow>
        withMutex w k fn g = (Resolved r, g) \<and> \<not> isLocked (mutexes g k))
   \<and> (sfn g = (r, g') \<longrightarrow>
      withSemaphore_resume j sfn g =
        (r, g'\<lparr>semaphores := (semaphores g')(j := snd (semaphore_release (semaphores g' j)))\<rparr>)
      \<and> (semaphore.waitQueue (semaphores g' j) = [] \<longrightarrow>
            availablePermits (semaphores (snd (withSemaphore_resume j sfn g)) j) =
              availablePermits (semaphores g' j) + 1))
   \<and> (0 < availablePermits (semaphores g j) \<longrightarrow>
        withSemaphore w j sfn g =
          (Resolved (fst (withSemaphore_resume j sfn (gs g j))),
           snd (withSemaphore_resume j sfn (gs g j))))
   \<and> (\<not> 0 < availablePermits (semaphores g j) \<longrightarrow>
        withSemaphore w j sfn g =
          (Pending, g\<lparr>semaphores := (semaphores g)(j := (semaphores g j)
                         \<lparr>semaphore.waitQueue := semaphore.waitQueue (semaphores g j) @ [w]\<rparr>)\<rparr>))
   \<and> (0 < availablePermits (semaphores g j) \<and> semaphore.waitQueue (semaphores g j) = []
        \<and> sfn (gs g j) = (r, gs g j) \<longrightarrow>
        withSemaphore w j sfn g = (Resolved r, g))"
proof -
  have m1: "withMutex_resume k fn g =
        (r, g'\<lparr>mutexes := (mutexes g')(k := snd (mutex_release (mutexes g' k)))\<rparr>)
      \<and> (mutex.waitQueue (mutexes g' k) = [] \<longrightarrow>
            \<not> isLocked (mutexes (snd (withMutex_resume k fn g)) k))" if "fn g = (r, g')"
    using that by (simp add: withMutex_resume_def mutex_release_def isLocked_def)
  have m2: "withMutex w k fn g =
      (Resolved (fst (withMutex_resume k fn (gm g k))), snd (withMutex_resume k fn (gm g k)))"
    if "\<not> isLocked (mutexes g k)"
    using that
    by (simp add: gm_def withMutex_def mutex_acquire_def isLocked_def split: prod.splits)
  have m2': "withMutex w k fn g =
          (Pending, g\<lparr>mutexes := (mutexes g)(k := (mutexes g k)
                         \<lparr>mutex.waitQueue := mutex.waitQueue (mutexes g k) @ [w]\<rparr>)\<rparr>)"
    if "isLocked (mutexes g k)"
    using that by (simp add: withMutex_def mutex_acquire_def isLocked_def)
  have m3: "withMutex w k fn g = (Resolved r, g) \<and> \<not> isLocked (mutexes g k)"
    if a: "\<not> isLocked (mutexes g k)" and b: "mutex.waitQueue (mutexes g k) = []"
      and c: "fn (gm g k) = (r, gm g k)"
  proof -
    from a have l: "(mutexes g k)\<lparr>locked := False\<rparr> = mutexes g k"
      by (simp add: isLocked_def)
    have "withMutex_resume k fn (gm g k) = (r, g)"
      unfolding withMutex_resume_def c using b l by (simp add: gm_def mutex_release_def)
    with m2 [OF a] a show ?thesis by simp
  qed
  have s1: "withSemaphore_resume j sfn g =
        (r, g'\<lparr>semaphores := (semaphores g')(j := snd (semaphore_release (semaphores g' j)))\<rparr>)
      \<and> (semaphore.waitQueue (semaphores g' j) = [] \<longrightarrow>
            availablePermits (semaphores (snd (withSemaphore_resume j sfn g)) j) =
              availablePermits (semaphores g' j) + 1)" if "sfn g = (r, g')"
    using that by (simp add: withSemaphore_resume_def semaphore_release_def availablePermits_def)
  have s2: "withSemaphore w j sfn g =
      (Resolved (fst (withSemaphore_resume j sfn (gs g j))),
       snd (withSemaphore_resume j sfn (gs g j)))"
    if "0 < availablePermits (semaphores g j)"
    using that
    by (simp add: gs_def withSemaphore_def semaphore_acquire_def availablePermits_def
        split: prod.splits)
  have s2': "withSemaphore w j sfn g =
          (Pending, g\<lparr>semaphores := (semaphores g)(j := (semaphores g j)
                         \<lparr>semaphore.waitQueue := semaphore.waitQueue (semaphores g j) @ [w]\<rparr>)\<rparr>)"
    if "\<not> 0 < availablePermits (semaphores g j)"
    using that by (simp add: withSemaphore_def semaphore_acquire_def availablePermits_def)
  have s3: "withSemaphore w j sfn g = (Resolved r, g)"
    if a: "0 < availablePermits (semaphores g j)" and b: "semaphore.waitQueue (semaphores g j) = []"
      and c: "sfn (gs g j) = (r, gs g j)"
  proof -
    have "withSemaphore_resume j sfn (gs g j) = (r, g)"
      unfolding withSemaphore_resume_def c using b by (simp add: gs_def semaphore_release_def)
    with s2 [OF a] show ?thesis by simp
  qed
  from m1 m2 m2' m3 s1 s2 s2' s3 show ?thesis by blast
qed

theorem scoped_release_witness:
  "withMutex (1::nat) contacts (\<lambda>g. (Inl ''boom'' :: string + nat, g)) initial_registry =
     (Resolved (Inl ''boom''), initial_registry)
   \<and> \<not> isLocked (mutexes (initial_registry :: nat registry) contacts)
   \<and> withMutex (1::nat) contacts (\<lambda>g. (Inr 42 :: string + nat, g)) initial_registry =
     (Resolved (Inr 42), initial_registry)
   \<and> withSemaphore (1::nat) sms (\<lambda>g. (Inl ''boom'' :: string + nat, g)) initial_registry =
     (Resolved (Inl ''boom''), initial_registry)
   \<and> availablePermits (semaphores (initial_registry :: nat registry) sms) = 3"
proof -
  let ?g = "initial_registry :: nat registry"
  let ?f = "\<lambda>g :: nat registry. (Inl ''boom'' :: string + nat, g)"
  let ?h = "\<lambda>g :: nat registry. (Inr 42 :: string + nat, g)"
  have m: "\<not> isLocked (mutexes ?g contacts) \<and> mutex.waitQueue (mutexes ?g contacts) = []"
    by (simp add: initial_registry_def new_Mutex_def isLocked_def)
  have p: "0 < availablePermits (semaphores ?g sms) \<and> semaphore.waitQueue (semaphores ?g sms) = []"
    by (simp add: initial_registry_def new_Semaphore_def availablePermits_def)
  have 1: "withMutex (1::nat) contacts ?f ?g = (Resolved (Inl ''boom''), ?g)"
    using scoped_release [where fn = ?f and r = "Inl ''boom''" and k = contacts and g = ?g
        and w = 1 and sfn = ?f and j = sms] m by blast
  have 2: "withMutex (1::nat) contacts ?h ?g = (Resolved (Inr 42), ?g)"
    using scoped_release [where fn = ?h and r = "Inr 42" and k = contacts and g = ?g
        and w = 1 and sfn = ?h and j = sms] m by blast
  have 3: "withSemaphore (1::nat) sms ?f ?g = (Resolved (Inl ''boom''), ?g)"
    using scoped_release [where fn = ?f and r = "Inl ''boom''" and k = contacts and g = ?g
        and w = 1 and sfn = ?f and j = sms] p by blast
  have 4: "availablePermits (semaphores ?g sms) = 3"
    by (simp add: initial_registry_def new_Semaphore_def availablePermits_def)
  from 1 2 3 4 m show ?thesis by blast
qed

end
